theory Spec2Isabelle
  imports Main "HOL-Library.Sublist"
begin

section \<open>Nicor Gas bill downloader: the polling algorithm of downloader.mjs\<close>

text \<open>
  The development embeds the three methods \<^verbatim>\<open>requestBill\<close>, \<^verbatim>\<open>tryDownloadingBill\<close> and
  \<^verbatim>\<open>tryBulkDownload\<close> of the class \<^verbatim>\<open>NicorGasBillDownloader\<close>. Everything the methods do
  to the outside world (the HTTP request, the file write, the console) is recorded, in
  order, in a trace of events; the outside world itself (the portal, the file system, the
  path and calendar utilities) is a record of functions that the methods consult.
\<close>

subsection \<open>JavaScript dates\<close>

text \<open>
  The methods read a \<^verbatim>\<open>Date\<close> only through \<^verbatim>\<open>getFullYear\<close>, \<^verbatim>\<open>getMonth\<close> and the
  year, month and day tokens of \<^verbatim>\<open>format\<close>, all in local time, so a \<^verbatim>\<open>Date\<close> is
  modelled by its local calendar day: the year, the month index (0 is January) and the
  day of the month, a day that its month has. These are the valid dates, and the calendar
  is not cut off at the ends of the range of time values. A \<^verbatim>\<open>Date\<close> that a caller
  hands to \<^verbatim>\<open>requestBill\<close> or to \<^verbatim>\<open>tryBulkDownload\<close> may also be the Invalid Date,
  whose time value is \<^verbatim>\<open>NaN\<close>.
\<close>

record jsdate =
  getFullYear :: int
  getMonth :: int
  getDate :: int

datatype Date = InvalidDate | ValidDate jsdate

definition isLeapYear :: "int \<Rightarrow> bool" where
  "isLeapYear y = (if y mod 400 = 0 then True else if y mod 100 = 0 then False else y mod 4 = 0)"

definition daysInMonth :: "int \<Rightarrow> int \<Rightarrow> int" where
  "daysInMonth y m =
     (if m = 1 then (if isLeapYear y then 29 else 28)
      else if m = 3 \<or> m = 5 \<or> m = 8 \<or> m = 10 then 30
      else 31)"

definition nextDay :: "jsdate \<Rightarrow> jsdate" where
  "nextDay d =
     (if getDate d < daysInMonth (getFullYear d) (getMonth d) then d\<lparr>getDate := getDate d + 1\<rparr>
      else if getMonth d < 11 then d\<lparr>getMonth := getMonth d + 1, getDate := 1\<rparr>
      else \<lparr>getFullYear = getFullYear d + 1, getMonth = 0, getDate = 1\<rparr>)"

definition prevDay :: "jsdate \<Rightarrow> jsdate" where
  "prevDay d =
     (if 1 < getDate d then d\<lparr>getDate := getDate d - 1\<rparr>
      else if 0 < getMonth d
        then d\<lparr>getMonth := getMonth d - 1,
                getDate := daysInMonth (getFullYear d) (getMonth d - 1)\<rparr>
      else \<lparr>getFullYear = getFullYear d - 1, getMonth = 11, getDate = 31\<rparr>)"

text \<open>
  \<^verbatim>\<open>new Date(year, monthIndex, day)\<close>: a year from 0 to 99 means 1900 + year, the month
  index is carried into the year, and the day counts from the first of that month, so a
  day outside the month rolls over into a neighbouring month.
\<close>

definition newDate :: "int \<Rightarrow> int \<Rightarrow> int \<Rightarrow> jsdate" where
  "newDate year monthIndex day =
     (let yr = (if 0 \<le> year \<and> year \<le> 99 then 1900 + year else year);
          first = \<lparr>getFullYear = yr + monthIndex div 12, getMonth = monthIndex mod 12,
                   getDate = 1\<rparr>
      in if 1 \<le> day then (nextDay ^^ nat (day - 1)) first
         else (prevDay ^^ nat (1 - day)) first)"

subsection \<open>Formatting dates (date-fns \<^verbatim>\<open>format\<close>)\<close>

text \<open>
  The program formats dates with the patterns \<^verbatim>\<open>MM/yyyy\<close>, \<^verbatim>\<open>MM/dd/yyyy\<close> and
  \<^verbatim>\<open>yyyy-MM-dd\<close>. A pattern is modelled by its tokens: \<^verbatim>\<open>MM\<close> is the month number,
  \<^verbatim>\<open>dd\<close> the day of the month, both padded to two digits, \<^verbatim>\<open>yyyy\<close> the year padded to
  four digits (the year of the era: year 0 prints as 0001), and anything else stands for
  itself.
\<close>

datatype token = MM | dd | yyyy | Lit string

fun digits :: "nat \<Rightarrow> string" where
  "digits n =
     (if n < 10 then [''0123456789'' ! n]
      else digits (n div 10) @ [''0123456789'' ! (n mod 10)])"

declare digits.simps [simp del]

definition addLeadingZeros :: "int \<Rightarrow> nat \<Rightarrow> string" where
  "addLeadingZeros number targetLength =
     (if number < 0 then ''-'' else [])
       @ replicate (targetLength - length (digits (nat \<bar>number\<bar>))) (CHR ''0'')
       @ digits (nat \<bar>number\<bar>)"

fun formatToken :: "jsdate \<Rightarrow> token \<Rightarrow> string" where
  "formatToken d MM = addLeadingZeros (getMonth d + 1) 2"
| "formatToken d dd = addLeadingZeros (getDate d) 2"
| "formatToken d yyyy =
     addLeadingZeros (if getFullYear d > 0 then getFullYear d else 1 - getFullYear d) 4"
| "formatToken d (Lit s) = s"

definition format :: "jsdate \<Rightarrow> token list \<Rightarrow> string" where
  "format d pattern = concat (map (formatToken d) pattern)"

subsection \<open>Strings\<close>

text \<open>\<^verbatim>\<open>String.prototype.includes\<close> and \<^verbatim>\<open>Array.prototype.join\<close>.\<close>

fun String_includes :: "string \<Rightarrow> string \<Rightarrow> bool" where
  "String_includes [] t = (t = [])"
| "String_includes (c # s) t = (if prefix t (c # s) then True else String_includes s t)"

fun join :: "string \<Rightarrow> string list \<Rightarrow> string" where
  "join sep [] = []"
| "join sep [x] = x"
| "join sep (x # y # ys) = x @ sep @ join sep (y # ys)"

subsection \<open>Thrown values, events and the outside world\<close>

text \<open>
  The values the methods throw or reject with: the repository's \<^verbatim>\<open>AuthenticationError\<close>
  (auth-error.mjs), a plain \<^verbatim>\<open>Error\<close>, the value \<^verbatim>\<open>undefined\<close> of a bare
  \<^verbatim>\<open>Promise.reject()\<close>, the \<^verbatim>\<open>TypeError\<close> with which \<^verbatim>\<open>fetch\<close> rejects on a network
  failure, the system error with which \<^verbatim>\<open>fs.writeFile\<close> rejects, and the
  \<^verbatim>\<open>RangeError\<close> that \<^verbatim>\<open>format\<close> throws.
\<close>

datatype thrown =
    AuthenticationError string
  | Error string
  | Undefined
  | TypeError string
  | SystemError string
  | RangeError string

fun instanceofAuthenticationError :: "thrown \<Rightarrow> bool" where
  "instanceofAuthenticationError (AuthenticationError m) = True"
| "instanceofAuthenticationError e = False"

fun message :: "thrown \<Rightarrow> string" where
  "message (AuthenticationError m) = m"
| "message (Error m) = m"
| "message (TypeError m) = m"
| "message (SystemError m) = m"
| "message (RangeError m) = m"
| "message Undefined = []"

text \<open>
  \<^verbatim>\<open>format\<close> of date-fns on any \<^verbatim>\<open>Date\<close>: it throws the \<^verbatim>\<open>RangeError\<close> with the
  message \<^verbatim>\<open>Invalid time value\<close> on the Invalid Date and formats a valid date as
  \<open>format\<close> does.
\<close>

definition formatDate :: "Date \<Rightarrow> token list \<Rightarrow> thrown + string" where
  "formatDate date pattern =
     (case date of
        InvalidDate \<Rightarrow> Inl (RangeError ''Invalid time value'')
      | ValidDate d \<Rightarrow> Inr (format d pattern))"

datatype colour = Plain | Blue | Red | Green

datatype event =
    Fetch string string
  | Write string string
  | Log colour string

text \<open>
  \<open>Fetch url cookie\<close> is one GET request with its cookie header, \<open>Write path bytes\<close>
  one call of \<^verbatim>\<open>fs.writeFile\<close>, \<open>Log c line\<close> one \<^verbatim>\<open>console.log\<close> of a line coloured by
  chalk (\<open>Plain\<close> when the program gives no colour).
\<close>

fun isFetch :: "event \<Rightarrow> bool" where
  "isFetch (Fetch u c) = True"
| "isFetch e = False"

fun isWrite :: "event \<Rightarrow> bool" where
  "isWrite (Write p b) = True"
| "isWrite e = False"

fun isLog :: "event \<Rightarrow> bool" where
  "isLog (Log c l) = True"
| "isLog e = False"

record response =
  redirected :: bool
  url :: string
  contentType :: "string option"
  body :: "string option"

datatype fetch_result = Resolved response | Rejected string

text \<open>
  The outside world. \<open>fetch n url cookie\<close> is the answer to the request when \<open>n\<close>
  requests have been made before it, \<open>writeFile n path bytes\<close> is \<open>None\<close> when the write
  succeeds after \<open>n\<close> earlier writes and \<open>Some code\<close> when it fails with that system error,
  and \<open>resolve\<close> is \<^verbatim>\<open>path.resolve\<close>.
\<close>

record env =
  fetch :: "nat \<Rightarrow> string \<Rightarrow> string \<Rightarrow> fetch_result"
  writeFile :: "nat \<Rightarrow> string \<Rightarrow> string \<Rightarrow> string option"
  resolve :: "string \<Rightarrow> string \<Rightarrow> string"

subsection \<open>The downloader\<close>

text \<open>
  The polling options of downloader-options.mjs, with their defaults. The two days are
  integers, and an options object that is given carries both.
\<close>

record PollingOptions =
  startTryingOn :: int
  stopTryingOn :: int

definition new_PollingOptions :: PollingOptions where
  "new_PollingOptions = \<lparr>startTryingOn = 14, stopTryingOn = 20\<rparr>"

text \<open>
  \<^verbatim>\<open>Object.assign(new PollingOptions(), pollingOptions)\<close>, where \<open>None\<close> is the
  argument left \<^verbatim>\<open>undefined\<close>.
\<close>

definition Object_assign :: "PollingOptions \<Rightarrow> PollingOptions option \<Rightarrow> PollingOptions" where
  "Object_assign target source = (case source of None \<Rightarrow> target | Some given \<Rightarrow> given)"

text \<open>
  The fields of a \<^verbatim>\<open>NicorGasBillDownloader\<close> (the session cookies are name and value),
  the URL that \<^verbatim>\<open>requestBill\<close> asks for and the cookie header that it sends.
\<close>

record NicorGasBillDownloader =
  accountNumber :: string
  billId :: string
  sessionCookies :: "(string \<times> string) list"

definition baseURL :: string where
  "baseURL = ''https://customerportal.southerncompany.com''"

definition requestUrl :: "NicorGasBillDownloader \<Rightarrow> jsdate \<Rightarrow> string" where
  "requestUrl this billDate =
     (let billDateString = format billDate [MM, Lit ''/'', dd, Lit ''/'', yyyy]
      in baseURL @ ''/Billing/ViewBill?BillDate='' @ billDateString @ ''&BillId='' @ billId this
           @ ''&BillRoutingNum=1'')"

definition cookieHeader :: "NicorGasBillDownloader \<Rightarrow> string" where
  "cookieHeader this = join ''; '' (map (\<lambda>(name, val). name @ ''='' @ val) (sessionCookies this))"

text \<open>
  How the \<^verbatim>\<open>try\<close> block of \<^verbatim>\<open>requestBill\<close> ends: with a throw, which its \<^verbatim>\<open>catch\<close>
  receives; with a returned value; or with a returned rejected promise, which the
  \<^verbatim>\<open>catch\<close> does not receive because the promise is returned without \<^verbatim>\<open>await\<close>.
\<close>

datatype 'a completion = Throws thrown | Returns 'a | ReturnsRejected thrown

definition requestBill_try :: "fetch_result \<Rightarrow> string completion" where
  "requestBill_try fetched =
     (case fetched of
        Rejected m \<Rightarrow> Throws (TypeError m)
      | Resolved response \<Rightarrow>
          if redirected response = True \<and> String_includes (url response) ''Generic''
          then Throws (AuthenticationError
                 ''Unable to make the bill request. An authentication issue has likely occured.'')
          else if contentType response = Some ''application/pdf'' \<and> body response \<noteq> None
          then Returns (the (body response))
          else ReturnsRejected Undefined)"

definition requestBill_catch :: "string completion \<Rightarrow> thrown + string" where
  "requestBill_catch tried =
     (case tried of
        Throws error \<Rightarrow>
          if instanceofAuthenticationError error then Inl error
          else Inl (Error ''An unknown error occurred.'')
      | Returns stream \<Rightarrow> Inr stream
      | ReturnsRejected reason \<Rightarrow> Inl reason)"

text \<open>
  The number of requests and of writes that a trace holds; the outside world answers the
  next one by its number.
\<close>

definition requestsMade :: "event list \<Rightarrow> nat" where
  "requestsMade tr = length (filter isFetch tr)"

definition writesMade :: "event list \<Rightarrow> nat" where
  "writesMade tr = length (filter isWrite tr)"

text \<open>
  \<^verbatim>\<open>requestBill\<close>. The bill date is formatted before the \<^verbatim>\<open>try\<close> block, so what
  \<^verbatim>\<open>format\<close> throws rejects the method as it is, before any request. Otherwise the
  request is recorded in the trace, and the method resolves with the body (\<open>Inr\<close>) or
  rejects (\<open>Inl\<close>). For a valid date the URL asked for is \<open>requestUrl\<close>.
\<close>

definition requestBill ::
  "env \<Rightarrow> NicorGasBillDownloader \<Rightarrow> Date \<Rightarrow> event list \<Rightarrow> (thrown + string) \<times> event list" where
  "requestBill world this billDate tr =
     (case formatDate billDate [MM, Lit ''/'', dd, Lit ''/'', yyyy] of
        Inl error \<Rightarrow> (Inl error, tr)
      | Inr billDateString \<Rightarrow>
          (let url' = baseURL @ ''/Billing/ViewBill?BillDate='' @ billDateString @ ''&BillId=''
                        @ billId this @ ''&BillRoutingNum=1'';
               fetched = fetch world (requestsMade tr) url' (cookieHeader this)
           in (requestBill_catch (requestBill_try fetched),
               tr @ [Fetch url' (cookieHeader this)])))"

text \<open>
  \<^verbatim>\<open>tryDownloadingBill\<close>. Its \<open>issuedDate\<close> is what its documentation asks for, a date
  whose month and year indicate when the bill was issued, and the dates that it makes
  with \<^verbatim>\<open>new Date\<close> are valid. The path of the file to save, the \<^verbatim>\<open>catch\<close> of the loop,
  and one turn of the loop for the day \<open>day\<close>: the result is \<open>True\<close> when the method
  returns from inside the loop and \<open>False\<close> when the loop goes on to the next day. The
  loop itself follows, and then the method, which returns normally (\<open>Inr\<close>) or throws
  (\<open>Inl\<close>).
\<close>

definition savePath :: "env \<Rightarrow> NicorGasBillDownloader \<Rightarrow> string \<Rightarrow> jsdate \<Rightarrow> string" where
  "savePath world this saveDirectory estimatedBillDate =
     (let fileName = format estimatedBillDate [yyyy, Lit ''-'', MM, Lit ''-'', dd]
      in resolve world saveDirectory (accountNumber this @ ''-'' @ fileName @ ''.pdf''))"

definition tryDownloadingBill_catch :: "thrown \<Rightarrow> event list \<Rightarrow> bool \<times> event list" where
  "tryDownloadingBill_catch error tr =
     (if instanceofAuthenticationError error then (True, tr @ [Log Red (message error)])
      else (False, tr))"

definition tryDownloadingBill_body ::
  "env \<Rightarrow> NicorGasBillDownloader \<Rightarrow> string \<Rightarrow> int \<Rightarrow> int \<Rightarrow> int \<Rightarrow> event list
     \<Rightarrow> bool \<times> event list" where
  "tryDownloadingBill_body world this saveDirectory issuedYear issuedMonth day tr =
     (let estimatedBillDate = newDate issuedYear issuedMonth day;
          tr1 = tr @ [Log Plain (''- Trying ''
                  @ format estimatedBillDate [MM, Lit ''/'', dd, Lit ''/'', yyyy])]
      in case requestBill world this (ValidDate estimatedBillDate) tr1 of
           (Inl error, tr2) \<Rightarrow> tryDownloadingBill_catch error tr2
         | (Inr stream, tr2) \<Rightarrow>
             (let tr3 = tr2 @ [Log Blue ''Bill found! Saving PDF to disk.''];
                  path = savePath world this saveDirectory estimatedBillDate;
                  tr4 = tr3 @ [Write path stream]
              in case writeFile world (writesMade tr3) path stream of
                   Some code \<Rightarrow> tryDownloadingBill_catch (SystemError code) tr4
                 | None \<Rightarrow> (True, tr4 @ [Log Green (''Success!'' @ [CHR 0x0A])])))"

function tryDownloadingBill_loop ::
  "env \<Rightarrow> NicorGasBillDownloader \<Rightarrow> string \<Rightarrow> int \<Rightarrow> int \<Rightarrow> int \<Rightarrow> int \<Rightarrow> event list
     \<Rightarrow> bool \<times> event list" where
  "tryDownloadingBill_loop world this saveDirectory issuedYear issuedMonth stopTryingOn' day tr =
     (if day \<le> stopTryingOn'
      then (case tryDownloadingBill_body world this saveDirectory issuedYear issuedMonth day tr of
              (True, tr') \<Rightarrow> (True, tr')
            | (False, tr') \<Rightarrow>
                tryDownloadingBill_loop world this saveDirectory issuedYear issuedMonth
                  stopTryingOn' (day + 1) tr')
      else (False, tr))"
  by pat_completeness auto
termination
  by (relation "measure (\<lambda>(world, this, saveDirectory, issuedYear, issuedMonth, stopTryingOn',
        day, tr). nat (stopTryingOn' + 1 - day))") auto

declare tryDownloadingBill_loop.simps [simp del]

definition tryDownloadingBill ::
  "env \<Rightarrow> NicorGasBillDownloader \<Rightarrow> jsdate \<Rightarrow> string \<Rightarrow> PollingOptions option \<Rightarrow> event list
     \<Rightarrow> (thrown + unit) \<times> event list" where
  "tryDownloadingBill world this issuedDate saveDirectory pollingOptions tr =
     (let issuedYear = getFullYear issuedDate;
          issuedMonth = getMonth issuedDate;
          issuedDateFormated = format issuedDate [MM, Lit ''/'', yyyy];
          tr0 = tr @ [Log Blue (''Trying to download bill issued in the month of ''
                  @ issuedDateFormated)];
          options = Object_assign new_PollingOptions pollingOptions;
          startTryingOn' = min 31 (max 0 (startTryingOn options));
          stopTryingOn' = min 31 (max 0 (stopTryingOn options))
      in case tryDownloadingBill_loop world this saveDirectory issuedYear issuedMonth
                stopTryingOn' startTryingOn' tr0 of
           (True, tr') \<Rightarrow> (Inr (), tr')
         | (False, tr') \<Rightarrow>
             (Inl (Error (''Unable to find and/or download a bill for the month of ''
                     @ issuedDateFormated)),
              tr' @ [Log Red (''Operation failed.'' @ [CHR 0x0A])]))"







section \<open>The vocabulary of the properties\<close>

subsection \<open>Probe outcomes\<close>

text \<open>
  What a probe means to \<^verbatim>\<open>tryDownloadingBill\<close>, read off its \<^verbatim>\<open>try\<close> and \<^verbatim>\<open>catch\<close>:
  a resolved \<^verbatim>\<open>requestBill\<close> is a document, a rejection with an \<^verbatim>\<open>AuthenticationError\<close>
  ends the scan, and any other rejection lets the scan go on. \<open>requestOutcome world n u c\<close>
  is the outcome of the request for the URL \<open>u\<close> with the cookie header \<open>c\<close> when it is
  the request number \<open>n\<close> (counting from 0), and \<open>nthOutcome world this n billDate\<close> is
  that outcome for the request that \<^verbatim>\<open>requestBill\<close> makes for \<open>billDate\<close>.
\<close>

datatype ProbeOutcome = DocumentFound string | NotFound | AuthenticationFailed string

fun probeOutcome :: "thrown + string \<Rightarrow> ProbeOutcome" where
  "probeOutcome (Inr stream) = DocumentFound stream"
| "probeOutcome (Inl error) =
     (if instanceofAuthenticationError error then AuthenticationFailed (message error)
      else NotFound)"

definition requestOutcome :: "env \<Rightarrow> nat \<Rightarrow> string \<Rightarrow> string \<Rightarrow> ProbeOutcome" where
  "requestOutcome world n u cookie =
     probeOutcome (requestBill_catch (requestBill_try (fetch world n u cookie)))"

definition nthOutcome :: "env \<Rightarrow> NicorGasBillDownloader \<Rightarrow> nat \<Rightarrow> jsdate \<Rightarrow> ProbeOutcome" where
  "nthOutcome world this n billDate =
     probeOutcome (requestBill_catch (requestBill_try
       (fetch world n (requestUrl this billDate) (cookieHeader this))))"

text \<open>
  The classification in the words of the specification: an authentication failure when
  the response was redirected and its final URL contains \<^verbatim>\<open>Generic\<close>, else a document
  when the content type is \<^verbatim>\<open>application/pdf\<close> and a body is present, else not found.
\<close>

definition spec_classify :: "response \<Rightarrow> ProbeOutcome" where
  "spec_classify r =
     (if redirected r \<and> String_includes (url r) ''Generic''
      then AuthenticationFailed
             ''Unable to make the bill request. An authentication issue has likely occured.''
      else if contentType r = Some ''application/pdf'' \<and> body r \<noteq> None
      then DocumentFound (the (body r))
      else NotFound)"

subsection \<open>The events of a scan\<close>

text \<open>
  The request for a day of the month being searched, the lines that the scan logs, and the
  events of a day on which nothing is found. \<open>io\<close> keeps the requests and the writes of
  a trace and drops the console lines.
\<close>

definition probe :: "NicorGasBillDownloader \<Rightarrow> int \<Rightarrow> int \<Rightarrow> int \<Rightarrow> event" where
  "probe this issuedYear issuedMonth day =
     Fetch (requestUrl this (newDate issuedYear issuedMonth day)) (cookieHeader this)"

definition trying :: "int \<Rightarrow> int \<Rightarrow> int \<Rightarrow> event" where
  "trying issuedYear issuedMonth day =
     Log Plain (''- Trying ''
       @ format (newDate issuedYear issuedMonth day) [MM, Lit ''/'', dd, Lit ''/'', yyyy])"

definition missEvents :: "NicorGasBillDownloader \<Rightarrow> int \<Rightarrow> int \<Rightarrow> int \<Rightarrow> event list" where
  "missEvents this y m day = [trying y m day, probe this y m day]"

definition foundLine :: event where
  "foundLine = Log Blue ''Bill found! Saving PDF to disk.''"

definition successLine :: event where
  "successLine = Log Green (''Success!'' @ [CHR 0x0A])"

definition monthLine :: "jsdate \<Rightarrow> event" where
  "monthLine issuedDate =
     Log Blue (''Trying to download bill issued in the month of ''
       @ format issuedDate [MM, Lit ''/'', yyyy])"

definition failedLine :: event where
  "failedLine = Log Red (''Operation failed.'' @ [CHR 0x0A])"

definition exhausted :: "jsdate \<Rightarrow> thrown" where
  "exhausted issuedDate =
     Error (''Unable to find and/or download a bill for the month of ''
       @ format issuedDate [MM, Lit ''/'', yyyy])"

definition io :: "event list \<Rightarrow> event list" where
  "io tr = filter (\<lambda>e. \<not> isLog e) tr"

text \<open>
  The line with which \<^verbatim>\<open>tryDownloadingBill\<close> starts is the only one that begins with
  these words, so it marks one attempt at one month.
\<close>

fun isAttempt :: "event \<Rightarrow> bool" where
  "isAttempt (Log c l) = prefix ''Trying to download bill issued in the month of '' l"
| "isAttempt e = False"

text \<open>
  How a scan that returned from inside its loop ended on day \<open>d\<close>, after the events
  \<open>pre\<close>: with a saved document, or with an authentication failure.
\<close>

definition returnedAt ::
  "env \<Rightarrow> NicorGasBillDownloader \<Rightarrow> string \<Rightarrow> int \<Rightarrow> int \<Rightarrow> event list \<Rightarrow> int \<Rightarrow> event list
     \<Rightarrow> bool" where
  "returnedAt world this dir y m tr' d pre =
     ((\<exists>b. tr' = pre @ [trying y m d, probe this y m d, foundLine,
                Write (savePath world this dir (newDate y m d)) b, successLine]
           \<and> nthOutcome world this (requestsMade pre) (newDate y m d) = DocumentFound b)
      \<or> (\<exists>msg. tr' = pre @ [trying y m d, probe this y m d, Log Red msg]
           \<and> nthOutcome world this (requestsMade pre) (newDate y m d)
                = AuthenticationFailed msg))"

subsection \<open>The window of days\<close>

text \<open>
  The first and the last day that a call of \<^verbatim>\<open>tryDownloadingBill\<close> tries, as the method
  computes them from its argument, and the clamping in the words of the specification:
  the lower bound raised to 0, the upper bound lowered to 31.
\<close>

definition startDay :: "PollingOptions option \<Rightarrow> int" where
  "startDay pollingOptions =
     min 31 (max 0 (startTryingOn (Object_assign new_PollingOptions pollingOptions)))"

definition stopDay :: "PollingOptions option \<Rightarrow> int" where
  "stopDay pollingOptions =
     min 31 (max 0 (stopTryingOn (Object_assign new_PollingOptions pollingOptions)))"


text \<open>
  What \<^verbatim>\<open>new Date(year, monthIndex, day)\<close> is for a day from 0 to 31, written out: day 0
  is the last day of the month before, a day within the month is that day, and a day
  beyond the end of the month is a day at the start of the month after.
\<close>

definition rolledOver :: "int \<Rightarrow> int \<Rightarrow> int \<Rightarrow> jsdate" where
  "rolledOver year monthIndex day =
     (let yr = (if 0 \<le> year \<and> year \<le> 99 then 1900 + year else year)
      in if day = 0
         then (if monthIndex = 0 then \<lparr>getFullYear = yr - 1, getMonth = 11, getDate = 31\<rparr>
               else \<lparr>getFullYear = yr, getMonth = monthIndex - 1,
                      getDate = daysInMonth yr (monthIndex - 1)\<rparr>)
         else if day \<le> daysInMonth yr monthIndex
         then \<lparr>getFullYear = yr, getMonth = monthIndex, getDate = day\<rparr>
         else if monthIndex = 11
         then \<lparr>getFullYear = yr + 1, getMonth = 0, getDate = day - 31\<rparr>
         else \<lparr>getFullYear = yr, getMonth = monthIndex + 1,
                getDate = day - daysInMonth yr monthIndex\<rparr>)"

subsection \<open>Example inputs\<close>

text \<open>
  An account, three answers of the portal (a bill, an ordinary page, the redirect to the
  generic error page) and a world that answers the request number \<open>n\<close> with \<open>answers n\<close>
  and the write number \<open>n\<close> with \<open>writes n\<close>.
\<close>

definition exampleDownloader :: NicorGasBillDownloader where
  "exampleDownloader =
     \<lparr>accountNumber = ''12349780000'', billId = ''98567123467'',
      sessionCookies = [(''sid'', ''abc''), (''ldc'', ''7'')]\<rparr>"

definition pdfResponse :: fetch_result where
  "pdfResponse =
     Resolved \<lparr>redirected = False,
               url = ''https://customerportal.southerncompany.com/Billing/ViewBill'',
               contentType = Some ''application/pdf'', body = Some ''%PDF''\<rparr>"

definition htmlResponse :: fetch_result where
  "htmlResponse =
     Resolved \<lparr>redirected = False,
               url = ''https://customerportal.southerncompany.com/Billing/ViewBill'',
               contentType = Some ''text/html'', body = Some ''<html>''\<rparr>"

definition genericRedirect :: fetch_result where
  "genericRedirect =
     Resolved \<lparr>redirected = True,
               url = ''https://customerportal.southerncompany.com/Error/Generic'',
               contentType = Some ''text/html'', body = Some ''<html>''\<rparr>"

definition exampleWorld :: "(nat \<Rightarrow> fetch_result) \<Rightarrow> (nat \<Rightarrow> string option) \<Rightarrow> env" where
  "exampleWorld answers writes =
     \<lparr>fetch = (\<lambda>n u c. answers n),
      writeFile = (\<lambda>n p b. writes n),
      resolve = (\<lambda>dir name. dir @ ''/'' @ name)\<rparr>"

definition april2024 :: jsdate where
  "april2024 = \<lparr>getFullYear = 2024, getMonth = 3, getDate = 1\<rparr>"


definition writeFailsOnFirstProbe :: env where
  "writeFailsOnFirstProbe =
     exampleWorld (\<lambda>n. if n = 0 then pdfResponse else htmlResponse) (\<lambda>n. Some ''ENOSPC'')"

definition redirectedBeforeBill :: env where
  "redirectedBeforeBill =
     exampleWorld (\<lambda>n. if n = 0 then genericRedirect else pdfResponse) (\<lambda>n. None)"

definition foundOnFifthProbe :: env where
  "foundOnFifthProbe = exampleWorld (\<lambda>n. if n = 4 then pdfResponse else htmlResponse) (\<lambda>n. None)"

definition redirectedOnThirdProbe :: env where
  "redirectedOnThirdProbe =
     exampleWorld (\<lambda>n. if n = 2 then genericRedirect else if n = 3 then pdfResponse
                        else htmlResponse) (\<lambda>n. None)"

definition billOnFirstProbe :: env where
  "billOnFirstProbe = exampleWorld (\<lambda>n. pdfResponse) (\<lambda>n. None)"


definition firstWriteFails :: env where
  "firstWriteFails =
     exampleWorld (\<lambda>n. if n = 0 then htmlResponse else pdfResponse)
       (\<lambda>n. if n = 0 then Some ''ENOSPC'' else None)"

definition answering :: "fetch_result \<Rightarrow> env" where
  "answering answer = exampleWorld (\<lambda>n. answer) (\<lambda>n. None)"

section \<open>Lemmas\<close>

subsection \<open>Counting the events of a trace\<close>

text \<open>
  The numbers of requests and of writes and the projection \<open>io\<close>, on traces built from
  the named events, and two ways of cutting a trace at one of its events.
\<close>

lemma requestsMade_append [simp]: "requestsMade (tr @ ev) = requestsMade tr + requestsMade ev"
  by (simp add: requestsMade_def)

lemma writesMade_append [simp]: "writesMade (tr @ ev) = writesMade tr + writesMade ev"
  by (simp add: writesMade_def)

lemma requestsMade_simps [simp]:
  "requestsMade [] = 0" "requestsMade (Fetch u c # ev) = Suc (requestsMade ev)"
  "requestsMade (Write p b # ev) = requestsMade ev" "requestsMade (Log k l # ev) = requestsMade ev"
  by (simp_all add: requestsMade_def)

lemma writesMade_simps [simp]:
  "writesMade [] = 0" "writesMade (Fetch u c # ev) = writesMade ev"
  "writesMade (Write p b # ev) = Suc (writesMade ev)" "writesMade (Log k l # ev) = writesMade ev"
  by (simp_all add: writesMade_def)

lemma io_append [simp]: "io (tr @ ev) = io tr @ io ev"
  by (simp add: io_def)

lemma io_simps [simp]:
  "io [] = []" "io (Fetch u c # ev) = Fetch u c # io ev"
  "io (Write p b # ev) = Write p b # io ev" "io (Log k l # ev) = io ev"
  by (simp_all add: io_def)

lemma requestsMade_lines [simp]:
  "requestsMade (monthLine D # ev) = requestsMade ev"
  "requestsMade (trying y m day # ev) = requestsMade ev"
  "requestsMade (foundLine # ev) = requestsMade ev"
  "requestsMade (successLine # ev) = requestsMade ev"
  "requestsMade (failedLine # ev) = requestsMade ev"
  "requestsMade (probe this y m day # ev) = Suc (requestsMade ev)"
  by (simp_all add: monthLine_def trying_def probe_def foundLine_def successLine_def
      failedLine_def)

lemma writesMade_lines [simp]:
  "writesMade (monthLine D # ev) = writesMade ev"
  "writesMade (trying y m day # ev) = writesMade ev"
  "writesMade (foundLine # ev) = writesMade ev"
  "writesMade (successLine # ev) = writesMade ev"
  "writesMade (failedLine # ev) = writesMade ev"
  "writesMade (probe this y m day # ev) = writesMade ev"
  by (simp_all add: monthLine_def trying_def probe_def foundLine_def successLine_def
      failedLine_def)

lemma io_lines [simp]:
  "io (monthLine D # ev) = io ev"
  "io (trying y m day # ev) = io ev"
  "io (foundLine # ev) = io ev"
  "io (successLine # ev) = io ev"
  "io (failedLine # ev) = io ev"
  "io (probe this y m day # ev) = probe this y m day # io ev"
  by (simp_all add: monthLine_def trying_def probe_def foundLine_def successLine_def
      failedLine_def)

lemma event_kinds [simp]:
  "trying y m day \<noteq> Fetch u c" "foundLine \<noteq> Fetch u c" "successLine \<noteq> Fetch u c"
  "failedLine \<noteq> Fetch u c" "monthLine D \<noteq> Fetch u c"
  "trying y m day \<noteq> Write p b" "foundLine \<noteq> Write p b" "successLine \<noteq> Write p b"
  "failedLine \<noteq> Write p b" "monthLine D \<noteq> Write p b" "probe this y m day \<noteq> Write p b"
  by (simp_all add: trying_def foundLine_def successLine_def failedLine_def monthLine_def
      probe_def)

lemma isAttempt_simps [simp]:
  "\<not> isAttempt (trying y m day)" "\<not> isAttempt (probe this y m day)" "\<not> isAttempt foundLine"
  "\<not> isAttempt successLine" "\<not> isAttempt failedLine" "isAttempt (monthLine issuedDate)"
  "\<not> isAttempt (Log Red ''Unable to make the bill request. An authentication issue has likely occured.'')"
  by (simp_all add: trying_def probe_def foundLine_def successLine_def failedLine_def
      monthLine_def)

lemma requestsMade_misses [simp]:
  "requestsMade (concat (map (missEvents this y m) ds)) = length ds"
  by (induction ds) (simp_all add: missEvents_def trying_def probe_def)

lemma writesMade_misses [simp]:
  "writesMade (concat (map (missEvents this y m) ds)) = 0"
  by (induction ds) (simp_all add: missEvents_def trying_def probe_def)

lemma io_misses [simp]:
  "io (concat (map (missEvents this y m) ds)) = map (probe this y m) ds"
  by (induction ds) (simp_all add: missEvents_def trying_def probe_def)

lemma fetches_of_misses [simp]:
  "filter isFetch (concat (map (missEvents this y m) ds)) = map (probe this y m) ds"
  by (induction ds) (simp_all add: missEvents_def trying_def probe_def)

lemma filter_isFetch_simps [simp]:
  "filter isFetch [trying y m day, probe this y m day] = [probe this y m day]"
  "filter isFetch [trying y m day, probe this y m day, Log Red msg] = [probe this y m day]"
  "filter isFetch [trying y m day, probe this y m day, foundLine, Write p b, successLine]
     = [probe this y m day]"
  "filter isFetch [trying y m day, probe this y m day, foundLine, Write p b]
     = [probe this y m day]"
  by (simp_all add: trying_def probe_def foundLine_def successLine_def)

lemma split_after_prefix:
  assumes "tr @ ev = pre @ x # post" and "length tr \<le> length pre"
  obtains pre' where "pre = tr @ pre'" and "ev = pre' @ x # post"
proof -
  from assms have "take (length tr) pre = tr"
    by (metis append_eq_append_conv_if append_eq_conv_conj)
  then have "pre = tr @ drop (length tr) pre"
    by (metis append_take_drop_id)
  moreover from this assms(1) have "ev = drop (length tr) pre @ x # post"
    by (metis append.assoc same_append_eq)
  ultimately show ?thesis using that by blast
qed

lemma split_before_last:
  assumes "xs @ [a] = pre @ x # post" and "a \<noteq> x"
  obtains post' where "post = post' @ [a]" and "xs = pre @ x # post'"
proof (cases post rule: rev_cases)
  case Nil
  with assms show ?thesis by simp
next
  case (snoc post' z)
  with assms(1) have "xs @ [a] = (pre @ x # post') @ [z]" by simp
  then have "xs = pre @ x # post'" and "a = z" by simp_all
  with snoc that show ?thesis by blast
qed

lemma upto_snoc: "lo \<le> n \<Longrightarrow> [lo..n - 1] @ [n] = [lo..n]"
  by (simp add: upto_rec2)

subsection \<open>Strings and dates\<close>

text \<open>
  \<open>String_includes\<close> is the test for a contiguous sublist, and \<open>newDate\<close> agrees with
  the rolled-over date written out, for a month index from 0 to 11 and a day from 0 to 31.
\<close>

lemma String_includes_sublist: "String_includes s t = sublist t s"
  by (induction s) (simp_all add: sublist_Cons_right)

lemma daysInMonth_bounds: "28 \<le> daysInMonth y m" "daysInMonth y m \<le> 31"
  by (simp_all add: daysInMonth_def)

lemma nextDay_within:
  "int k < daysInMonth y m \<Longrightarrow>
   (nextDay ^^ k) \<lparr>getFullYear = y, getMonth = m, getDate = 1\<rparr>
     = \<lparr>getFullYear = y, getMonth = m, getDate = 1 + int k\<rparr>"
  by (induction k) (simp_all add: nextDay_def)

lemma nextDay_last:
  "nextDay \<lparr>getFullYear = y, getMonth = m, getDate = daysInMonth y m\<rparr>
     = (if m < 11 then \<lparr>getFullYear = y, getMonth = m + 1, getDate = 1\<rparr>
        else \<lparr>getFullYear = y + 1, getMonth = 0, getDate = 1\<rparr>)"
  by (simp add: nextDay_def)

lemma nextDay_beyond:
  assumes "daysInMonth y m \<le> int k" and "int k < daysInMonth y m + 28"
  shows "(nextDay ^^ k) \<lparr>getFullYear = y, getMonth = m, getDate = 1\<rparr>
     = (if m < 11 then \<lparr>getFullYear = y, getMonth = m + 1, getDate = 1 + int k - daysInMonth y m\<rparr>
        else \<lparr>getFullYear = y + 1, getMonth = 0, getDate = 1 + int k - daysInMonth y m\<rparr>)"
proof -
  define j where "j = nat (daysInMonth y m - 1)"
  define i where "i = k - Suc j"
  have j: "int j = daysInMonth y m - 1" using daysInMonth_bounds(1) [of y m] by (simp add: j_def)
  have k: "k = i + Suc j" using assms j by (simp add: i_def)
  have i28: "int i < 28" using assms j by (simp add: i_def)
  have "(nextDay ^^ Suc j) \<lparr>getFullYear = y, getMonth = m, getDate = 1\<rparr>
          = nextDay \<lparr>getFullYear = y, getMonth = m, getDate = daysInMonth y m\<rparr>"
    using nextDay_within [of j y m] j by simp
  then have first: "(nextDay ^^ Suc j) \<lparr>getFullYear = y, getMonth = m, getDate = 1\<rparr>
          = (if m < 11 then \<lparr>getFullYear = y, getMonth = m + 1, getDate = 1\<rparr>
             else \<lparr>getFullYear = y + 1, getMonth = 0, getDate = 1\<rparr>)"
    by (simp only: nextDay_last)
  have "(nextDay ^^ k) \<lparr>getFullYear = y, getMonth = m, getDate = 1\<rparr>
          = (nextDay ^^ i) ((nextDay ^^ Suc j) \<lparr>getFullYear = y, getMonth = m, getDate = 1\<rparr>)"
    unfolding k by (simp only: funpow_add o_apply)
  also have "\<dots> = (if m < 11 then \<lparr>getFullYear = y, getMonth = m + 1, getDate = 1 + int i\<rparr>
             else \<lparr>getFullYear = y + 1, getMonth = 0, getDate = 1 + int i\<rparr>)"
    unfolding first
    using i28 daysInMonth_bounds(1) [of y "m + 1"] daysInMonth_bounds(1) [of "y + 1" 0]
    by (simp add: nextDay_within)
  also have "int i = int k - daysInMonth y m" using k j by simp
  finally show ?thesis by (simp add: algebra_simps)
qed

lemma newDate_rolledOver:
  assumes "0 \<le> m" and "m \<le> 11" and "0 \<le> day" and "day \<le> 31"
  shows "newDate y m day = rolledOver y m day"
proof -
  define yr where "yr = (if 0 \<le> y \<and> y \<le> 99 then 1900 + y else y)"
  from assms have md: "m div 12 = 0" "m mod 12 = m" by simp_all
  show ?thesis
  proof (cases "day = 0")
    case True
    then show ?thesis
      using assms by (simp add: newDate_def rolledOver_def Let_def md prevDay_def)
  next
    case False
    with assms have pos: "1 \<le> day" by simp
    show ?thesis
    proof (cases "day \<le> daysInMonth yr m")
      case True
      with pos have "int (nat (day - 1)) < daysInMonth yr m" by simp
      from nextDay_within [OF this] pos True False show ?thesis
        by (simp add: newDate_def rolledOver_def Let_def md yr_def)
    next
      case False
      with pos assms daysInMonth_bounds [of yr m]
      have "daysInMonth yr m \<le> int (nat (day - 1))"
        and "int (nat (day - 1)) < daysInMonth yr m + 28"
        by simp_all
      from nextDay_beyond [OF this] pos False \<open>day \<noteq> 0\<close> assms show ?thesis
        by (auto simp: newDate_def rolledOver_def Let_def md yr_def daysInMonth_def)
    qed
  qed
qed

subsection \<open>Outcomes\<close>

lemma nthOutcome_requestOutcome:
  "nthOutcome world this n billDate
     = requestOutcome world n (requestUrl this billDate) (cookieHeader this)"
  by (simp add: nthOutcome_def requestOutcome_def)

lemma probe_request:
  "Fetch u c = probe this y m day \<Longrightarrow>
   requestOutcome world n u c = nthOutcome world this n (newDate y m day)"
  by (simp add: probe_def nthOutcome_requestOutcome)


subsection \<open>One turn of the loop\<close>

lemma requestBill_valid:
  "requestBill world this (ValidDate billDate) tr
     = (requestBill_catch (requestBill_try
          (fetch world (requestsMade tr) (requestUrl this billDate) (cookieHeader this))),
        tr @ [Fetch (requestUrl this billDate) (cookieHeader this)])"
  by (simp add: requestBill_def formatDate_def requestUrl_def Let_def)

lemma requestBill_invalid:
  "requestBill world this InvalidDate tr = (Inl (RangeError ''Invalid time value''), tr)"
  by (simp add: requestBill_def formatDate_def)

text \<open>
  The four ways in which a turn of the loop can go: nothing found, an authentication
  failure, a document saved, a document whose write fails.
\<close>

lemma body_NotFound:
  assumes "nthOutcome world this (requestsMade tr) (newDate y m day) = NotFound"
  shows "tryDownloadingBill_body world this dir y m day tr
           = (False, tr @ [trying y m day, probe this y m day])"
  using assms
  by (auto simp: tryDownloadingBill_body_def requestBill_valid nthOutcome_def Let_def trying_def
      probe_def tryDownloadingBill_catch_def split: sum.splits if_splits)

lemma body_AuthenticationFailed:
  assumes "nthOutcome world this (requestsMade tr) (newDate y m day) = AuthenticationFailed msg"
  shows "tryDownloadingBill_body world this dir y m day tr
           = (True, tr @ [trying y m day, probe this y m day, Log Red msg])"
  using assms
  by (auto simp: tryDownloadingBill_body_def requestBill_valid nthOutcome_def Let_def trying_def
      probe_def tryDownloadingBill_catch_def split: sum.splits if_splits)

lemma body_DocumentFound_saved:
  assumes "nthOutcome world this (requestsMade tr) (newDate y m day) = DocumentFound b"
    and "writeFile world (writesMade tr) (savePath world this dir (newDate y m day)) b = None"
  shows "tryDownloadingBill_body world this dir y m day tr
           = (True, tr @ [trying y m day, probe this y m day,
                Log Blue ''Bill found! Saving PDF to disk.'',
                Write (savePath world this dir (newDate y m day)) b,
                Log Green (''Success!'' @ [CHR 0x0A])])"
  using assms
  by (auto simp: tryDownloadingBill_body_def requestBill_valid nthOutcome_def Let_def trying_def
      probe_def tryDownloadingBill_catch_def split: sum.splits if_splits)

lemma body_DocumentFound_write_failed:
  assumes "nthOutcome world this (requestsMade tr) (newDate y m day) = DocumentFound b"
    and "writeFile world (writesMade tr) (savePath world this dir (newDate y m day)) b = Some code"
  shows "tryDownloadingBill_body world this dir y m day tr
           = (False, tr @ [trying y m day, probe this y m day,
                Log Blue ''Bill found! Saving PDF to disk.'',
                Write (savePath world this dir (newDate y m day)) b])"
  using assms
  by (auto simp: tryDownloadingBill_body_def requestBill_valid nthOutcome_def Let_def trying_def
      probe_def tryDownloadingBill_catch_def split: sum.splits if_splits)

lemma body_cases:
  obtains
    (miss) "nthOutcome world this (requestsMade tr) (newDate y m day) = NotFound"
      "tryDownloadingBill_body world this dir y m day tr
         = (False, tr @ [trying y m day, probe this y m day])"
  | (auth) msg where
      "nthOutcome world this (requestsMade tr) (newDate y m day) = AuthenticationFailed msg"
      "tryDownloadingBill_body world this dir y m day tr
         = (True, tr @ [trying y m day, probe this y m day, Log Red msg])"
  | (saved) b where
      "nthOutcome world this (requestsMade tr) (newDate y m day) = DocumentFound b"
      "writeFile world (writesMade tr) (savePath world this dir (newDate y m day)) b = None"
      "tryDownloadingBill_body world this dir y m day tr
         = (True, tr @ [trying y m day, probe this y m day, foundLine,
              Write (savePath world this dir (newDate y m day)) b, successLine])"
  | (unsaved) b code where
      "nthOutcome world this (requestsMade tr) (newDate y m day) = DocumentFound b"
      "writeFile world (writesMade tr) (savePath world this dir (newDate y m day)) b = Some code"
      "tryDownloadingBill_body world this dir y m day tr
         = (False, tr @ [trying y m day, probe this y m day, foundLine,
              Write (savePath world this dir (newDate y m day)) b])"
proof (cases "nthOutcome world this (requestsMade tr) (newDate y m day)")
  case NotFound
  then show ?thesis using miss body_NotFound by blast
next
  case (AuthenticationFailed msg)
  then show ?thesis using auth body_AuthenticationFailed by blast
next
  case (DocumentFound b)
  show ?thesis
  proof (cases "writeFile world (writesMade tr) (savePath world this dir (newDate y m day)) b")
    case None
    with DocumentFound show ?thesis
      using saved body_DocumentFound_saved unfolding foundLine_def successLine_def by blast
  next
    case (Some code)
    with DocumentFound show ?thesis
      using unsaved body_DocumentFound_write_failed unfolding foundLine_def by blast
  qed
qed

subsection \<open>The loop\<close>

lemma loop_end:
  "stop < day \<Longrightarrow> tryDownloadingBill_loop world this dir y m stop day tr = (False, tr)"
  by (simp add: tryDownloadingBill_loop.simps)

lemma loop_step_False:
  "day \<le> stop \<Longrightarrow> tryDownloadingBill_body world this dir y m day tr = (False, tr') \<Longrightarrow>
   tryDownloadingBill_loop world this dir y m stop day tr
     = tryDownloadingBill_loop world this dir y m stop (day + 1) tr'"
  by (subst tryDownloadingBill_loop.simps) simp

lemma loop_step_True:
  "day \<le> stop \<Longrightarrow> tryDownloadingBill_body world this dir y m day tr = (True, tr') \<Longrightarrow>
   tryDownloadingBill_loop world this dir y m stop day tr = (True, tr')"
  by (subst tryDownloadingBill_loop.simps) simp

lemma loop_eval:
  "day \<le> stop \<Longrightarrow>
   tryDownloadingBill_loop world this dir y m stop day tr =
     (case nthOutcome world this (requestsMade tr) (newDate y m day) of
        NotFound \<Rightarrow>
          tryDownloadingBill_loop world this dir y m stop (day + 1)
            (tr @ [trying y m day, probe this y m day])
      | AuthenticationFailed msg \<Rightarrow> (True, tr @ [trying y m day, probe this y m day, Log Red msg])
      | DocumentFound b \<Rightarrow>
          (case writeFile world (writesMade tr) (savePath world this dir (newDate y m day)) b of
             None \<Rightarrow> (True, tr @ [trying y m day, probe this y m day, foundLine,
                         Write (savePath world this dir (newDate y m day)) b, successLine])
           | Some code \<Rightarrow>
               tryDownloadingBill_loop world this dir y m stop (day + 1)
                 (tr @ [trying y m day, probe this y m day, foundLine,
                    Write (savePath world this dir (newDate y m day)) b])))"
  by (cases rule: body_cases [of world this tr y m day dir])
    (simp_all add: loop_step_False loop_step_True)

lemma loop_skip:
  assumes "day \<le> n" and "n \<le> stop + 1"
    and "\<forall>d\<in>{day..<n}.
           nthOutcome world this (requestsMade tr + nat (d - day)) (newDate y m d) = NotFound"
  shows "tryDownloadingBill_loop world this dir y m stop day tr
           = tryDownloadingBill_loop world this dir y m stop n
               (tr @ concat (map (missEvents this y m) [day..n - 1]))"
  using assms
proof (induction "nat (n - day)" arbitrary: day tr)
  case 0
  then have "day = n" by simp
  then show ?case by simp
next
  case (Suc k)
  then have lt: "day < n" and le: "day \<le> stop" by simp_all
  from Suc.prems(3) lt
  have "nthOutcome world this (requestsMade tr) (newDate y m day) = NotFound"
    by (auto dest: bspec [where x = day])
  then have body: "tryDownloadingBill_body world this dir y m day tr
                     = (False, tr @ missEvents this y m day)"
    by (simp add: body_NotFound missEvents_def)
  have rest: "\<forall>d\<in>{day + 1..<n}.
      nthOutcome world this (requestsMade (tr @ missEvents this y m day) + nat (d - (day + 1)))
        (newDate y m d) = NotFound"
  proof
    fix d assume d: "d \<in> {day + 1..<n}"
    then have "d \<in> {day..<n}" by simp
    with Suc.prems(3)
    have nf: "nthOutcome world this (requestsMade tr + nat (d - day)) (newDate y m d) = NotFound"
      by blast
    from d have eq: "requestsMade (tr @ missEvents this y m day) + nat (d - (day + 1))
        = requestsMade tr + nat (d - day)"
      by (auto simp: missEvents_def trying_def probe_def)
    show "nthOutcome world this
        (requestsMade (tr @ missEvents this y m day) + nat (d - (day + 1))) (newDate y m d)
          = NotFound"
      unfolding eq by (rule nf)
  qed
  have k: "k = nat (n - (day + 1))" using Suc.hyps(2) by simp
  have "tryDownloadingBill_loop world this dir y m stop (day + 1) (tr @ missEvents this y m day)
          = tryDownloadingBill_loop world this dir y m stop n
              ((tr @ missEvents this y m day) @ concat (map (missEvents this y m) [day + 1..n - 1]))"
    using Suc.hyps(1) [OF k _ Suc.prems(2) rest] lt by simp
  moreover have "[day..n - 1] = day # [day + 1..n - 1]"
    using lt by (simp add: upto_rec1)
  ultimately show ?case
    using loop_step_False [OF le body] by simp
qed

lemma loop_fetch_prefix:
  "\<exists>ev. snd (tryDownloadingBill_loop world this dir y m stop day tr) = tr @ ev
        \<and> prefix (filter isFetch ev) (map (probe this y m) [day..stop])"
proof (induction world this dir y m stop day tr rule: tryDownloadingBill_loop.induct)
  case (1 world this dir y m stop day tr)
  show ?case
  proof (cases "day \<le> stop")
    case False
    then show ?thesis by (simp add: loop_end)
  next
    case True
    then have days: "[day..stop] = day # [day + 1..stop]" by (simp add: upto_rec1)
    show ?thesis
    proof (cases rule: body_cases [of world this tr y m day dir])
      case miss
      from "1.IH" [OF True miss(2) [symmetric] refl]
      obtain ev where ev: "snd (tryDownloadingBill_loop world this dir y m stop (day + 1)
          (tr @ [trying y m day, probe this y m day]))
            = (tr @ [trying y m day, probe this y m day]) @ ev"
        and pre: "prefix (filter isFetch ev) (map (probe this y m) [day + 1..stop])"
        by blast
      have "snd (tryDownloadingBill_loop world this dir y m stop day tr)
              = tr @ ([trying y m day, probe this y m day] @ ev)"
        unfolding loop_step_False [OF True miss(2)] ev by simp
      moreover have "prefix (filter isFetch ([trying y m day, probe this y m day] @ ev))
          (map (probe this y m) [day..stop])"
        unfolding days using pre by (simp add: trying_def probe_def)
      ultimately show ?thesis by blast
    next
      case (auth msg)
      have "snd (tryDownloadingBill_loop world this dir y m stop day tr)
              = tr @ [trying y m day, probe this y m day, Log Red msg]"
        unfolding loop_step_True [OF True auth(2)] by simp
      moreover have "prefix (filter isFetch [trying y m day, probe this y m day, Log Red msg])
          (map (probe this y m) [day..stop])"
        unfolding days by (simp add: trying_def probe_def)
      ultimately show ?thesis by blast
    next
      case (saved b)
      have "snd (tryDownloadingBill_loop world this dir y m stop day tr)
              = tr @ [trying y m day, probe this y m day, foundLine,
                  Write (savePath world this dir (newDate y m day)) b, successLine]"
        unfolding loop_step_True [OF True saved(3)] by simp
      moreover have "prefix (filter isFetch [trying y m day, probe this y m day, foundLine,
                  Write (savePath world this dir (newDate y m day)) b, successLine])
          (map (probe this y m) [day..stop])"
        unfolding days by (simp add: trying_def probe_def foundLine_def successLine_def)
      ultimately show ?thesis by blast
    next
      case (unsaved b code)
      let ?step = "[trying y m day, probe this y m day, foundLine,
              Write (savePath world this dir (newDate y m day)) b]"
      from "1.IH" [OF True unsaved(3) [symmetric] refl]
      obtain ev where ev: "snd (tryDownloadingBill_loop world this dir y m stop (day + 1)
          (tr @ ?step)) = (tr @ ?step) @ ev"
        and pre: "prefix (filter isFetch ev) (map (probe this y m) [day + 1..stop])"
        by blast
      have "snd (tryDownloadingBill_loop world this dir y m stop day tr) = tr @ (?step @ ev)"
        unfolding loop_step_False [OF True unsaved(3)] ev by simp
      moreover have "prefix (filter isFetch (?step @ ev)) (map (probe this y m) [day..stop])"
        unfolding days using pre by (simp add: trying_def probe_def foundLine_def)
      ultimately show ?thesis by blast
    qed
  qed
qed

lemma loop_appends:
  "\<exists>ev. snd (tryDownloadingBill_loop world this dir y m stop day tr) = tr @ ev"
  using loop_fetch_prefix [of world this dir y m stop day tr] by blast

lemma loop_starts:
  assumes "day \<le> stop"
  shows "\<exists>ev. snd (tryDownloadingBill_loop world this dir y m stop day tr)
           = tr @ trying y m day # probe this y m day # ev"
proof (cases rule: body_cases [of world this tr y m day dir])
  case miss
  from loop_appends [of world this dir y m stop "day + 1" "tr @ [trying y m day, probe this y m day]"]
  show ?thesis
    unfolding loop_step_False [OF assms miss(2)] by auto
next
  case (auth msg)
  show ?thesis
    unfolding loop_step_True [OF assms auth(2)] by simp
next
  case (saved b)
  show ?thesis
    unfolding loop_step_True [OF assms saved(3)] by simp
next
  case (unsaved b code)
  from loop_appends [of world this dir y m stop "day + 1"
      "tr @ [trying y m day, probe this y m day, foundLine,
             Write (savePath world this dir (newDate y m day)) b]"]
  show ?thesis
    unfolding loop_step_False [OF assms unsaved(3)] by auto
qed

lemma loop_True:
  assumes "tryDownloadingBill_loop world this dir y m stop day tr = (True, tr')"
  shows "\<exists>d pre. d \<in> {day..stop} \<and> returnedAt world this dir y m tr' d pre"
  using assms
proof (induction world this dir y m stop day tr rule: tryDownloadingBill_loop.induct)
  case (1 world this dir y m stop day tr)
  show ?case
  proof (cases "day \<le> stop")
    case False
    with "1.prems" show ?thesis by (simp add: loop_end)
  next
    case True
    show ?thesis
    proof (cases rule: body_cases [of world this tr y m day dir])
      case miss
      from "1.prems" have "tryDownloadingBill_loop world this dir y m stop (day + 1)
          (tr @ [trying y m day, probe this y m day]) = (True, tr')"
        unfolding loop_step_False [OF True miss(2)] .
      from "1.IH" [OF True miss(2) [symmetric] refl this]
      obtain d pre where "d \<in> {day + 1..stop}" and sh: "returnedAt world this dir y m tr' d pre"
        by blast
      then have "d \<in> {day..stop}" by simp
      with sh show ?thesis by blast
    next
      case (auth msg)
      from "1.prems" have "tr' = tr @ [trying y m day, probe this y m day, Log Red msg]"
        unfolding loop_step_True [OF True auth(2)] by simp
      with auth(1) have "returnedAt world this dir y m tr' day tr"
        unfolding returnedAt_def by blast
      moreover from True have "day \<in> {day..stop}" by simp
      ultimately show ?thesis by blast
    next
      case (saved b)
      from "1.prems" have "tr' = tr @ [trying y m day, probe this y m day, foundLine,
              Write (savePath world this dir (newDate y m day)) b, successLine]"
        unfolding loop_step_True [OF True saved(3)] by simp
      with saved(1) have "returnedAt world this dir y m tr' day tr"
        unfolding returnedAt_def by blast
      moreover from True have "day \<in> {day..stop}" by simp
      ultimately show ?thesis by blast
    next
      case (unsaved b code)
      from "1.prems" have "tryDownloadingBill_loop world this dir y m stop (day + 1)
          (tr @ [trying y m day, probe this y m day, foundLine,
              Write (savePath world this dir (newDate y m day)) b]) = (True, tr')"
        unfolding loop_step_False [OF True unsaved(3)] .
      from "1.IH" [OF True unsaved(3) [symmetric] refl this]
      obtain d pre where "d \<in> {day + 1..stop}" and sh: "returnedAt world this dir y m tr' d pre"
        by blast
      then have "d \<in> {day..stop}" by simp
      with sh show ?thesis by blast
    qed
  qed
qed


lemma loop_authentication_failure:
  assumes "snd (tryDownloadingBill_loop world this dir y m stop day tr) = pre @ Fetch u c # post"
    and "length tr \<le> length pre"
    and "requestOutcome world (requestsMade pre) u c = AuthenticationFailed msg"
  shows "fst (tryDownloadingBill_loop world this dir y m stop day tr) = True
    \<and> post = [Log Red msg]"
  using assms
proof (induction world this dir y m stop day tr rule: tryDownloadingBill_loop.induct)
  case (1 world this dir y m stop day tr)
  show ?case
  proof (cases "day \<le> stop")
    case False
    with "1.prems"(1,2) show ?thesis by (simp add: loop_end)
  next
    case True
    show ?thesis
    proof (cases rule: body_cases [of world this tr y m day dir])
      case miss
      let ?tr1 = "tr @ [trying y m day, probe this y m day]"
      obtain ev where ev: "snd (tryDownloadingBill_loop world this dir y m stop (day + 1) ?tr1)
          = ?tr1 @ ev"
        using loop_appends by blast
      with "1.prems"(1) have "tr @ (trying y m day # probe this y m day # ev)
          = pre @ Fetch u c # post"
        unfolding loop_step_False [OF True miss(2)] by simp
      from split_after_prefix [OF this "1.prems"(2)]
      obtain pre' where pre: "pre = tr @ pre'"
        and eq: "trying y m day # probe this y m day # ev = pre' @ Fetch u c # post"
        by blast
      from eq consider
          (here) "pre' = [trying y m day]" "Fetch u c = probe this y m day"
        | (later) pre'' where "pre' = trying y m day # probe this y m day # pre''"
            "ev = pre'' @ Fetch u c # post"
        by (auto simp: Cons_eq_append_conv)
      then show ?thesis
      proof cases
        case here
        with pre "1.prems"(3) miss(1) probe_request [OF here(2), of world "requestsMade tr"]
        show ?thesis by simp
      next
        case later
        with pre ev
        have "snd (tryDownloadingBill_loop world this dir y m stop (day + 1) ?tr1)
            = pre @ Fetch u c # post" and "length ?tr1 \<le> length pre"
          by simp_all
        from "1.IH" [OF True miss(2) [symmetric] refl this "1.prems"(3)] show ?thesis
          unfolding loop_step_False [OF True miss(2)] .
      qed
    next
      case (auth msg')
      from "1.prems"(1) have "tr @ [trying y m day, probe this y m day, Log Red msg']
          = pre @ Fetch u c # post"
        unfolding loop_step_True [OF True auth(2)] by simp
      from split_after_prefix [OF this "1.prems"(2)]
      obtain pre' where pre: "pre = tr @ pre'"
        and eq: "[trying y m day, probe this y m day, Log Red msg'] = pre' @ Fetch u c # post"
        by blast
      from eq have "pre' = [trying y m day]" and "Fetch u c = probe this y m day"
        and "post = [Log Red msg']"
        by (auto simp: Cons_eq_append_conv)
      with pre "1.prems"(3) auth(1) probe_request [of u c this y m day world "requestsMade tr"]
      show ?thesis
        unfolding loop_step_True [OF True auth(2)] by simp
    next
      case (saved b)
      from "1.prems"(1) have "tr @ [trying y m day, probe this y m day, foundLine,
            Write (savePath world this dir (newDate y m day)) b, successLine]
          = pre @ Fetch u c # post"
        unfolding loop_step_True [OF True saved(3)] by simp
      from split_after_prefix [OF this "1.prems"(2)]
      obtain pre' where pre: "pre = tr @ pre'"
        and eq: "[trying y m day, probe this y m day, foundLine,
            Write (savePath world this dir (newDate y m day)) b, successLine]
              = pre' @ Fetch u c # post"
        by blast
      from eq have "pre' = [trying y m day]" and "Fetch u c = probe this y m day"
        by (auto simp: Cons_eq_append_conv)
      with pre "1.prems"(3) saved(1) probe_request [of u c this y m day world "requestsMade tr"]
      show ?thesis by simp
    next
      case (unsaved b code)
      let ?tr1 = "tr @ [trying y m day, probe this y m day, foundLine,
            Write (savePath world this dir (newDate y m day)) b]"
      obtain ev where ev: "snd (tryDownloadingBill_loop world this dir y m stop (day + 1) ?tr1)
          = ?tr1 @ ev"
        using loop_appends by blast
      with "1.prems"(1) have "tr @ (trying y m day # probe this y m day # foundLine
            # Write (savePath world this dir (newDate y m day)) b # ev)
          = pre @ Fetch u c # post"
        unfolding loop_step_False [OF True unsaved(3)] by simp
      from split_after_prefix [OF this "1.prems"(2)]
      obtain pre' where pre: "pre = tr @ pre'"
        and eq: "trying y m day # probe this y m day # foundLine
            # Write (savePath world this dir (newDate y m day)) b # ev = pre' @ Fetch u c # post"
        by blast
      from eq consider
          (here) "pre' = [trying y m day]" "Fetch u c = probe this y m day"
        | (later) pre'' where "pre' = trying y m day # probe this y m day # foundLine
            # Write (savePath world this dir (newDate y m day)) b # pre''"
            "ev = pre'' @ Fetch u c # post"
        by (auto simp: Cons_eq_append_conv)
      then show ?thesis
      proof cases
        case here
        with pre "1.prems"(3) unsaved(1) probe_request [OF here(2), of world "requestsMade tr"]
        show ?thesis by simp
      next
        case later
        with pre ev
        have "snd (tryDownloadingBill_loop world this dir y m stop (day + 1) ?tr1)
            = pre @ Fetch u c # post" and "length ?tr1 \<le> length pre"
          by simp_all
        from "1.IH" [OF True unsaved(3) [symmetric] refl this "1.prems"(3)] show ?thesis
          unfolding loop_step_False [OF True unsaved(3)] .
      qed
    qed
  qed
qed

lemma loop_failed_write:
  assumes "snd (tryDownloadingBill_loop world this dir y m stop day tr) = pre @ Write p b # post"
    and "length tr \<le> length pre"
    and "writeFile world (writesMade pre) p b = Some code"
  shows "\<exists>d\<in>{day..stop}. p = savePath world this dir (newDate y m d)
    \<and> (if d < stop then (\<exists>ev. post = trying y m (d + 1) # probe this y m (d + 1) # ev)
        else post = [] \<and> fst (tryDownloadingBill_loop world this dir y m stop day tr) = False)"
  using assms
proof (induction world this dir y m stop day tr rule: tryDownloadingBill_loop.induct)
  case (1 world this dir y m stop day tr)
  show ?case
  proof (cases "day \<le> stop")
    case False
    with "1.prems"(1,2) show ?thesis by (simp add: loop_end)
  next
    case True
    show ?thesis
    proof (cases rule: body_cases [of world this tr y m day dir])
      case miss
      let ?tr1 = "tr @ [trying y m day, probe this y m day]"
      obtain ev where ev: "snd (tryDownloadingBill_loop world this dir y m stop (day + 1) ?tr1)
          = ?tr1 @ ev"
        using loop_appends by blast
      with "1.prems"(1) have "tr @ (trying y m day # probe this y m day # ev)
          = pre @ Write p b # post"
        unfolding loop_step_False [OF True miss(2)] by simp
      from split_after_prefix [OF this "1.prems"(2)]
      obtain pre' where pre: "pre = tr @ pre'"
        and eq: "trying y m day # probe this y m day # ev = pre' @ Write p b # post"
        by blast
      from eq obtain pre'' where "pre' = trying y m day # probe this y m day # pre''"
          and "ev = pre'' @ Write p b # post"
        by (auto simp: Cons_eq_append_conv)
      with pre ev
      have "snd (tryDownloadingBill_loop world this dir y m stop (day + 1) ?tr1)
          = pre @ Write p b # post" and "length ?tr1 \<le> length pre"
        by simp_all
      from "1.IH" [OF True miss(2) [symmetric] refl this "1.prems"(3)]
      obtain d where "d \<in> {day + 1..stop}" and "p = savePath world this dir (newDate y m d)"
        and "if d < stop then (\<exists>ev. post = trying y m (d + 1) # probe this y m (d + 1) # ev)
             else post = [] \<and> fst (tryDownloadingBill_loop world this dir y m stop (day + 1) ?tr1)
                    = False"
        by blast
      then show ?thesis
        unfolding loop_step_False [OF True miss(2)] by (intro bexI [of _ d]) simp_all
    next
      case (auth msg)
      from "1.prems"(1) have "tr @ [trying y m day, probe this y m day, Log Red msg]
          = pre @ Write p b # post"
        unfolding loop_step_True [OF True auth(2)] by simp
      from split_after_prefix [OF this "1.prems"(2)]
      obtain pre' where "[trying y m day, probe this y m day, Log Red msg] = pre' @ Write p b # post"
        by blast
      then show ?thesis
        by (auto simp: Cons_eq_append_conv)
    next
      case (saved b')
      from "1.prems"(1) have "tr @ [trying y m day, probe this y m day, foundLine,
            Write (savePath world this dir (newDate y m day)) b', successLine]
          = pre @ Write p b # post"
        unfolding loop_step_True [OF True saved(3)] by simp
      from split_after_prefix [OF this "1.prems"(2)]
      obtain pre' where pre: "pre = tr @ pre'"
        and eq: "[trying y m day, probe this y m day, foundLine,
            Write (savePath world this dir (newDate y m day)) b', successLine]
              = pre' @ Write p b # post"
        by blast
      from eq have "pre' = [trying y m day, probe this y m day, foundLine]"
        and "p = savePath world this dir (newDate y m day)" and "b = b'"
        by (auto simp: Cons_eq_append_conv)
      with pre "1.prems"(3) saved(2) show ?thesis by simp
    next
      case (unsaved b' code')
      let ?tr1 = "tr @ [trying y m day, probe this y m day, foundLine,
            Write (savePath world this dir (newDate y m day)) b']"
      obtain ev where ev: "snd (tryDownloadingBill_loop world this dir y m stop (day + 1) ?tr1)
          = ?tr1 @ ev"
        using loop_appends by blast
      with "1.prems"(1) have "tr @ (trying y m day # probe this y m day # foundLine
            # Write (savePath world this dir (newDate y m day)) b' # ev)
          = pre @ Write p b # post"
        unfolding loop_step_False [OF True unsaved(3)] by simp
      from split_after_prefix [OF this "1.prems"(2)]
      obtain pre' where pre: "pre = tr @ pre'"
        and eq: "trying y m day # probe this y m day # foundLine
            # Write (savePath world this dir (newDate y m day)) b' # ev = pre' @ Write p b # post"
        by blast
      from eq consider
          (here) "p = savePath world this dir (newDate y m day)" "post = ev"
        | (later) pre'' where "pre' = trying y m day # probe this y m day # foundLine
            # Write (savePath world this dir (newDate y m day)) b' # pre''"
            "ev = pre'' @ Write p b # post"
        by (auto simp: Cons_eq_append_conv)
      then show ?thesis
      proof cases
        case here
        show ?thesis
        proof (cases "day < stop")
          case True
          then have "day + 1 \<le> stop" by simp
          from loop_starts [OF this, of world this dir y m ?tr1] ev here(2)
          have "\<exists>ev'. post = trying y m (day + 1) # probe this y m (day + 1) # ev'"
            by auto
          with True here(1) \<open>day \<le> stop\<close> show ?thesis
            by (intro bexI [of _ day]) simp_all
        next
          case False
          with \<open>day \<le> stop\<close> have "stop < day + 1" by simp
          from loop_end [OF this, of world this dir y m ?tr1] ev here(2)
          have "post = []"
            and "fst (tryDownloadingBill_loop world this dir y m stop (day + 1) ?tr1) = False"
            by simp_all
          with False here(1) \<open>day \<le> stop\<close> show ?thesis
            unfolding loop_step_False [OF \<open>day \<le> stop\<close> unsaved(3)]
            by (intro bexI [of _ day]) simp_all
        qed
      next
        case later
        with pre ev
        have "snd (tryDownloadingBill_loop world this dir y m stop (day + 1) ?tr1)
            = pre @ Write p b # post" and "length ?tr1 \<le> length pre"
          by simp_all
        from "1.IH" [OF True unsaved(3) [symmetric] refl this "1.prems"(3)]
        obtain d where "d \<in> {day + 1..stop}" and "p = savePath world this dir (newDate y m d)"
          and "if d < stop then (\<exists>ev. post = trying y m (d + 1) # probe this y m (d + 1) # ev)
               else post = [] \<and> fst (tryDownloadingBill_loop world this dir y m stop (day + 1) ?tr1)
                      = False"
          by blast
        then show ?thesis
          unfolding loop_step_False [OF True unsaved(3)] by (intro bexI [of _ d]) simp_all
      qed
    qed
  qed
qed

subsection \<open>The call\<close>

lemma tryDownloadingBill_via_loop:
  "tryDownloadingBill world this issuedDate dir pollingOptions tr =
     (case tryDownloadingBill_loop world this dir (getFullYear issuedDate) (getMonth issuedDate)
             (stopDay pollingOptions) (startDay pollingOptions) (tr @ [monthLine issuedDate]) of
        (True, tr') \<Rightarrow> (Inr (), tr')
      | (False, tr') \<Rightarrow> (Inl (exhausted issuedDate), tr' @ [failedLine]))"
  unfolding tryDownloadingBill_def Let_def startDay_def stopDay_def monthLine_def
    failedLine_def exhausted_def
  by (rule refl)



lemma scan_reaches:
  assumes "n \<in> {startDay po..stopDay po}"
    and "\<forall>d\<in>{startDay po..<n}.
           nthOutcome world this (requestsMade tr + nat (d - startDay po)) (newDate y m d)
             = NotFound"
  shows "tryDownloadingBill_loop world this dir y m (stopDay po) (startDay po)
           (tr @ [monthLine D])
         = tryDownloadingBill_loop world this dir y m (stopDay po) n
             ((tr @ [monthLine D])
                @ concat (map (missEvents this y m) [startDay po..n - 1]))"
proof (rule loop_skip)
  from assms(1) show "startDay po \<le> n" and "n \<le> stopDay po + 1" by simp_all
  from assms(2) show "\<forall>d\<in>{startDay po..<n}.
      nthOutcome world this (requestsMade (tr @ [monthLine D]) + nat (d - startDay po))
        (newDate y m d) = NotFound"
    by simp
qed

lemma requestsMade_reached:
  "lo \<le> n \<Longrightarrow>
   requestsMade ((tr @ [monthLine D]) @ concat (map (missEvents this y m) [lo..n - 1]))
     = requestsMade tr + nat (n - lo)"
  by simp

lemma writesMade_reached:
  "writesMade ((tr @ [monthLine D]) @ concat (map (missEvents this y m) [lo..n - 1]))
     = writesMade tr"
  by simp




subsection \<open>The bulk download\<close>



subsection \<open>Evaluation at the example inputs\<close>

text \<open>
  Rules with which the simplifier computes dates, formatted dates and the answers of the
  example worlds.
\<close>

lemma digits_numeral:
  "digits (numeral k) =
     (if (numeral k :: nat) < 10 then [''0123456789'' ! numeral k]
      else digits (numeral k div 10) @ [''0123456789'' ! (numeral k mod 10)])"
  by (rule digits.simps)

lemma digits_small: "digits 0 = ''0''" "digits (Suc 0) = ''1''"
  by (simp_all add: digits.simps)

lemmas format_eval = format_def addLeadingZeros_def digits_numeral digits_small

lemmas newDate_eval = newDate_rolledOver rolledOver_def daysInMonth_def isLeapYear_def

lemma default_window [simp]: "startDay None = 14" "stopDay None = 20"
  by (simp_all add: startDay_def stopDay_def Object_assign_def new_PollingOptions_def)

lemma april2024_fields [simp]: "getFullYear april2024 = 2024" "getMonth april2024 = 3"
  by (simp_all add: april2024_def)

lemmas world_eval = nthOutcome_def exampleWorld_def pdfResponse_def htmlResponse_def
  genericRedirect_def requestBill_try_def requestBill_catch_def

lemma april2024_exhausted:
  "exhausted april2024 = Error ''Unable to find and/or download a bill for the month of 04/2024''"
  by (simp add: exhausted_def april2024_def format_eval)

lemma april18_name:
  "format (newDate 2024 3 18) [yyyy, Lit ''-'', MM, Lit ''-'', dd] = ''2024-04-18''"
  by (simp add: newDate_eval format_eval)

lemma example_names:
  "format (newDate 2024 3 15) [yyyy, Lit ''-'', MM, Lit ''-'', dd] = ''2024-04-15''"
  "format (newDate 2024 3 16) [yyyy, Lit ''-'', MM, Lit ''-'', dd] = ''2024-04-16''"
  by (simp_all add: newDate_eval format_eval)







section \<open>The claims\<close>

subsection \<open>C1: An authentication failure ends the scan\<close>

text \<open>
  C1 (as amended). Whenever a request made by \<^verbatim>\<open>tryDownloadingBill\<close> is classified as an
  authentication failure, the method stops there, whatever the later days would have
  answered: after that request it only logs the message of the error, so it makes no
  further request and no write, and it returns normally, with no value, as it does after
  a saved bill (and unlike an exhausted window, which throws). Here \<open>pre\<close> is what
  happened before the request, in the call or before it.
\<close>

theorem authentication_failure_ends_scan:
  assumes "snd (tryDownloadingBill world this issuedDate dir pollingOptions tr)
             = pre @ Fetch u c # post"
    and "length tr \<le> length pre"
    and "requestOutcome world (requestsMade pre) u c = AuthenticationFailed msg"
  shows "fst (tryDownloadingBill world this issuedDate dir pollingOptions tr) = Inr ()
    \<and> post = [Log Red msg]"
proof -
  let ?y = "getFullYear issuedDate" and ?m = "getMonth issuedDate"
  let ?tr0 = "tr @ [monthLine issuedDate]"
  obtain r tr' where loop: "tryDownloadingBill_loop world this dir ?y ?m
      (stopDay pollingOptions) (startDay pollingOptions) ?tr0 = (r, tr')"
    by (cases "tryDownloadingBill_loop world this dir ?y ?m
      (stopDay pollingOptions) (startDay pollingOptions) ?tr0")
  obtain ev where ev: "tr' = ?tr0 @ ev"
    using loop_appends [of world this dir ?y ?m "stopDay pollingOptions"
        "startDay pollingOptions" ?tr0] loop by auto
  have longer: "length ?tr0 \<le> length pre" if "tr @ monthLine issuedDate # rest = pre @ Fetch u c # post'"
    for rest post'
  proof -
    from split_after_prefix [OF that assms(2)]
    obtain pre' where "pre = tr @ pre'" and "monthLine issuedDate # rest = pre' @ Fetch u c # post'"
      by blast
    then show ?thesis by (cases pre') simp_all
  qed
  show ?thesis
  proof (cases r)
    case True
    with loop have run: "tryDownloadingBill world this issuedDate dir pollingOptions tr
        = (Inr (), tr')"
      unfolding tryDownloadingBill_via_loop by simp
    with assms(1) have tr': "tr' = pre @ Fetch u c # post" by simp
    with ev have "tr @ monthLine issuedDate # ev = pre @ Fetch u c # post" by simp
    then have "length ?tr0 \<le> length pre" by (rule longer)
    from loop_authentication_failure [of world this dir ?y ?m "stopDay pollingOptions"
        "startDay pollingOptions" ?tr0 pre u c post msg] loop tr' this assms(3)
    show ?thesis unfolding run by simp
  next
    case False
    with loop have run: "tryDownloadingBill world this issuedDate dir pollingOptions tr
        = (Inl (exhausted issuedDate), tr' @ [failedLine])"
      unfolding tryDownloadingBill_via_loop by simp
    with assms(1) have "tr' @ [failedLine] = pre @ Fetch u c # post" by simp
    from split_before_last [OF this]
    obtain post' where "post = post' @ [failedLine]" and tr': "tr' = pre @ Fetch u c # post'"
      by auto
    with ev have "tr @ monthLine issuedDate # ev = pre @ Fetch u c # post'" by simp
    then have "length ?tr0 \<le> length pre" by (rule longer)
    from loop_authentication_failure [of world this dir ?y ?m "stopDay pollingOptions"
        "startDay pollingOptions" ?tr0 pre u c post' msg] loop tr' this assms(3) False
    show ?thesis by simp
  qed
qed

text \<open>
  The theorem at the default window 14 to 20 of April 2024: the third request is redirected
  to the generic page, and the fourth would have been a bill.
\<close>

theorem authentication_failure_ends_scan_witness:
  "requestOutcome redirectedOnThirdProbe 2 (requestUrl exampleDownloader (newDate 2024 3 16))
       (cookieHeader exampleDownloader)
     = AuthenticationFailed
         ''Unable to make the bill request. An authentication issue has likely occured.''
   \<and> requestOutcome redirectedOnThirdProbe 3 (requestUrl exampleDownloader (newDate 2024 3 17))
       (cookieHeader exampleDownloader)
     = DocumentFound ''%PDF''
   \<and> tryDownloadingBill redirectedOnThirdProbe exampleDownloader april2024 ''/bills'' None []
     = (Inr (),
        [monthLine april2024,
         trying 2024 3 14, probe exampleDownloader 2024 3 14,
         trying 2024 3 15, probe exampleDownloader 2024 3 15,
         trying 2024 3 16, probe exampleDownloader 2024 3 16,
         Log Red ''Unable to make the bill request. An authentication issue has likely occured.''])"
proof -
  let ?msg = "''Unable to make the bill request. An authentication issue has likely occured.''"
  let ?pre = "[monthLine april2024,
         trying 2024 3 14, probe exampleDownloader 2024 3 14,
         trying 2024 3 15, probe exampleDownloader 2024 3 15,
         trying 2024 3 16]"
  have answers: "nthOutcome redirectedOnThirdProbe exampleDownloader n d
        = (if n = 2 then AuthenticationFailed ?msg
           else if n = 3 then DocumentFound ''%PDF'' else NotFound)" for n d
    by (simp add: world_eval redirectedOnThirdProbe_def)
  obtain post where run: "snd (tryDownloadingBill redirectedOnThirdProbe exampleDownloader
        april2024 ''/bills'' None [])
      = ?pre @ Fetch (requestUrl exampleDownloader (newDate 2024 3 16))
                 (cookieHeader exampleDownloader) # post"
    by (simp add: tryDownloadingBill_via_loop loop_eval answers probe_def)
  have len: "length ([] :: event list) \<le> length ?pre" by simp
  have out: "requestOutcome redirectedOnThirdProbe (requestsMade ?pre)
      (requestUrl exampleDownloader (newDate 2024 3 16)) (cookieHeader exampleDownloader)
        = AuthenticationFailed ?msg"
    by (simp add: requestOutcome_def redirectedOnThirdProbe_def exampleWorld_def
        genericRedirect_def requestBill_try_def requestBill_catch_def)
  have third: "requestOutcome redirectedOnThirdProbe 2
      (requestUrl exampleDownloader (newDate 2024 3 16)) (cookieHeader exampleDownloader)
        = AuthenticationFailed ?msg"
    by (simp add: requestOutcome_def redirectedOnThirdProbe_def exampleWorld_def
        genericRedirect_def requestBill_try_def requestBill_catch_def)
  have later: "requestOutcome redirectedOnThirdProbe 3
      (requestUrl exampleDownloader (newDate 2024 3 17)) (cookieHeader exampleDownloader)
        = DocumentFound ''%PDF''"
    using answers [of 3 "newDate 2024 3 17"] by (simp add: nthOutcome_requestOutcome)
  from authentication_failure_ends_scan [OF run len out] run third later show ?thesis
    by (simp add: prod_eq_iff probe_def)
qed

text \<open>
  C1 as stated fails: a call that meets an authentication failure on its first probe and
  a call that saves a bill on its first probe return the same value, so the caller cannot
  tell the failure from a success by what the method returns.
\<close>

theorem authentication_failure_counterexample:
  "nthOutcome redirectedBeforeBill exampleDownloader 0 (newDate 2024 3 14)
     = AuthenticationFailed
         ''Unable to make the bill request. An authentication issue has likely occured.''
   \<and> nthOutcome billOnFirstProbe exampleDownloader 0 (newDate 2024 3 14) = DocumentFound ''%PDF''
   \<and> writesMade
        (snd (tryDownloadingBill redirectedBeforeBill exampleDownloader april2024 ''/bills''
                None [])) = 0
   \<and> writesMade
        (snd (tryDownloadingBill billOnFirstProbe exampleDownloader april2024 ''/bills''
                None [])) = 1
   \<and> fst (tryDownloadingBill redirectedBeforeBill exampleDownloader april2024 ''/bills'' None [])
       = Inr ()
   \<and> fst (tryDownloadingBill redirectedBeforeBill exampleDownloader april2024 ''/bills'' None [])
       = fst (tryDownloadingBill billOnFirstProbe exampleDownloader april2024 ''/bills'' None [])"
  by (simp add: tryDownloadingBill_via_loop loop_eval loop_end world_eval
      billOnFirstProbe_def redirectedBeforeBill_def)

subsection \<open>C2: A failed write\<close>

text \<open>
  C2 (as amended). Whenever a write made by \<^verbatim>\<open>tryDownloadingBill\<close> fails with a system
  error, that error does not reach the caller: the catch of the loop receives it as it
  receives a failed probe, and the scan goes on. The write was that of a day \<open>d\<close> of the
  window; when \<open>d\<close> is not the last day, the next thing the method does is to try day
  \<open>d + 1\<close>, and when it is the last day the method logs the failure and throws the
  exhaustion error. It never ends with the system error.
\<close>

theorem write_failure_is_swallowed:
  assumes "snd (tryDownloadingBill world this issuedDate dir pollingOptions tr)
             = pre @ Write p b # post"
    and "length tr \<le> length pre"
    and "writeFile world (writesMade pre) p b = Some code"
  shows "fst (tryDownloadingBill world this issuedDate dir pollingOptions tr)
           \<noteq> Inl (SystemError code)
    \<and> (\<exists>d\<in>{startDay pollingOptions..stopDay pollingOptions}.
          p = savePath world this dir (newDate (getFullYear issuedDate) (getMonth issuedDate) d)
          \<and> (if d < stopDay pollingOptions
              then (\<exists>ev. post = trying (getFullYear issuedDate) (getMonth issuedDate) (d + 1)
                           # probe this (getFullYear issuedDate) (getMonth issuedDate) (d + 1) # ev)
              else post = [failedLine]
                \<and> fst (tryDownloadingBill world this issuedDate dir pollingOptions tr)
                    = Inl (Error (''Unable to find and/or download a bill for the month of ''
                            @ format issuedDate [MM, Lit ''/'', yyyy]))))"
proof -
  let ?y = "getFullYear issuedDate" and ?m = "getMonth issuedDate"
  let ?tr0 = "tr @ [monthLine issuedDate]"
  obtain r tr' where loop: "tryDownloadingBill_loop world this dir ?y ?m
      (stopDay pollingOptions) (startDay pollingOptions) ?tr0 = (r, tr')"
    by (cases "tryDownloadingBill_loop world this dir ?y ?m
      (stopDay pollingOptions) (startDay pollingOptions) ?tr0")
  obtain ev where ev: "tr' = ?tr0 @ ev"
    using loop_appends [of world this dir ?y ?m "stopDay pollingOptions"
        "startDay pollingOptions" ?tr0] loop by auto
  have longer: "length ?tr0 \<le> length pre" if "tr @ monthLine issuedDate # rest = pre @ Write p b # post'"
    for rest post'
  proof -
    from split_after_prefix [OF that assms(2)]
    obtain pre' where "pre = tr @ pre'" and "monthLine issuedDate # rest = pre' @ Write p b # post'"
      by blast
    then show ?thesis by (cases pre') simp_all
  qed
  have never: "fst (tryDownloadingBill world this issuedDate dir pollingOptions tr)
      \<noteq> Inl (SystemError code)"
    unfolding tryDownloadingBill_via_loop loop by (cases r) (simp_all add: exhausted_def)
  show ?thesis
  proof (cases r)
    case True
    with loop have run: "tryDownloadingBill world this issuedDate dir pollingOptions tr
        = (Inr (), tr')"
      unfolding tryDownloadingBill_via_loop by simp
    with assms(1) have tr': "tr' = pre @ Write p b # post" by simp
    with ev have "tr @ monthLine issuedDate # ev = pre @ Write p b # post" by simp
    then have len: "length ?tr0 \<le> length pre" by (rule longer)
    have "snd (tryDownloadingBill_loop world this dir ?y ?m (stopDay pollingOptions)
        (startDay pollingOptions) ?tr0) = pre @ Write p b # post"
      unfolding loop tr' by simp
    from loop_failed_write [OF this len assms(3)]
    obtain d where d: "d \<in> {startDay pollingOptions..stopDay pollingOptions}"
      and p: "p = savePath world this dir (newDate ?y ?m d)"
      and after: "if d < stopDay pollingOptions
          then (\<exists>ev. post = trying ?y ?m (d + 1) # probe this ?y ?m (d + 1) # ev)
          else post = [] \<and> fst (tryDownloadingBill_loop world this dir ?y ?m
                 (stopDay pollingOptions) (startDay pollingOptions) ?tr0) = False"
      by blast
    from after True have "d < stopDay pollingOptions"
      and "\<exists>ev. post = trying ?y ?m (d + 1) # probe this ?y ?m (d + 1) # ev"
      unfolding loop by (simp_all split: if_splits)
    with never d p show ?thesis by (intro conjI bexI [of _ d]) simp_all
  next
    case False
    with loop have run: "tryDownloadingBill world this issuedDate dir pollingOptions tr
        = (Inl (exhausted issuedDate), tr' @ [failedLine])"
      unfolding tryDownloadingBill_via_loop by simp
    with assms(1) have "tr' @ [failedLine] = pre @ Write p b # post" by simp
    from split_before_last [OF this]
    obtain post' where post: "post = post' @ [failedLine]" and tr': "tr' = pre @ Write p b # post'"
      by auto
    with ev have "tr @ monthLine issuedDate # ev = pre @ Write p b # post'" by simp
    then have len: "length ?tr0 \<le> length pre" by (rule longer)
    have "snd (tryDownloadingBill_loop world this dir ?y ?m (stopDay pollingOptions)
        (startDay pollingOptions) ?tr0) = pre @ Write p b # post'"
      unfolding loop tr' by simp
    from loop_failed_write [OF this len assms(3)]
    obtain d where d: "d \<in> {startDay pollingOptions..stopDay pollingOptions}"
      and p: "p = savePath world this dir (newDate ?y ?m d)"
      and after: "if d < stopDay pollingOptions
          then (\<exists>ev. post' = trying ?y ?m (d + 1) # probe this ?y ?m (d + 1) # ev)
          else post' = [] \<and> fst (tryDownloadingBill_loop world this dir ?y ?m
                 (stopDay pollingOptions) (startDay pollingOptions) ?tr0) = False"
      by blast
    have "if d < stopDay pollingOptions
          then (\<exists>ev. post = trying ?y ?m (d + 1) # probe this ?y ?m (d + 1) # ev)
          else post = [failedLine]
            \<and> fst (tryDownloadingBill world this issuedDate dir pollingOptions tr)
                = Inl (Error (''Unable to find and/or download a bill for the month of ''
                        @ format issuedDate [MM, Lit ''/'', yyyy]))"
    proof (cases "d < stopDay pollingOptions")
      case True
      with after obtain ev' where "post' = trying ?y ?m (d + 1) # probe this ?y ?m (d + 1) # ev'"
        by auto
      with post have "post = trying ?y ?m (d + 1) # probe this ?y ?m (d + 1) # (ev' @ [failedLine])"
        by simp
      with True show ?thesis by auto
    next
      case False
      with after have "post' = []" by simp
      with post False show ?thesis unfolding run by (simp add: exhausted_def)
    qed
    with never d p show ?thesis by (intro conjI bexI [of _ d]) simp_all
  qed
qed

text \<open>
  The theorem at the default window of April 2024: nothing on the 14th, a bill on the 15th
  whose write fails, after which the 16th is tried.
\<close>

theorem write_failure_is_swallowed_witness:
  "writeFile firstWriteFails 0 ''/bills/12349780000-2024-04-15.pdf'' ''%PDF'' = Some ''ENOSPC''
   \<and> fst (tryDownloadingBill firstWriteFails exampleDownloader april2024 ''/bills'' None [])
       \<noteq> Inl (SystemError ''ENOSPC'')
   \<and> (\<exists>ev. snd (tryDownloadingBill firstWriteFails exampleDownloader april2024 ''/bills'' None [])
         = [monthLine april2024,
            trying 2024 3 14, probe exampleDownloader 2024 3 14,
            trying 2024 3 15, probe exampleDownloader 2024 3 15, foundLine,
            Write ''/bills/12349780000-2024-04-15.pdf'' ''%PDF'',
            trying 2024 3 16, probe exampleDownloader 2024 3 16] @ ev)"
proof -
  let ?pre = "[monthLine april2024,
            trying 2024 3 14, probe exampleDownloader 2024 3 14,
            trying 2024 3 15, probe exampleDownloader 2024 3 15, foundLine]"
  have answers: "nthOutcome firstWriteFails exampleDownloader n d
        = (if n = 0 then NotFound else DocumentFound ''%PDF'')" for n d
    by (simp add: world_eval firstWriteFails_def)
  have writes: "writeFile firstWriteFails n p b = (if n = 0 then Some ''ENOSPC'' else None)"
    for n p b
    by (simp add: firstWriteFails_def exampleWorld_def)
  have paths: "savePath firstWriteFails exampleDownloader ''/bills'' (newDate 2024 3 15)
        = ''/bills/12349780000-2024-04-15.pdf''"
      "savePath firstWriteFails exampleDownloader ''/bills'' (newDate 2024 3 16)
        = ''/bills/12349780000-2024-04-16.pdf''"
    by (simp_all add: savePath_def example_names firstWriteFails_def exampleWorld_def
        exampleDownloader_def)
  obtain post where run: "snd (tryDownloadingBill firstWriteFails exampleDownloader april2024
        ''/bills'' None [])
      = ?pre @ Write ''/bills/12349780000-2024-04-15.pdf'' ''%PDF'' # post"
    by (simp add: tryDownloadingBill_via_loop loop_eval answers writes paths)
  have len: "length ([] :: event list) \<le> length ?pre" by simp
  have failed: "writeFile firstWriteFails (writesMade ?pre)
      ''/bills/12349780000-2024-04-15.pdf'' ''%PDF'' = Some ''ENOSPC''"
    by (simp add: writes)
  from write_failure_is_swallowed [OF run len failed]
  obtain d where d: "d \<in> {startDay None..stopDay None}"
    and p: "''/bills/12349780000-2024-04-15.pdf''
        = savePath firstWriteFails exampleDownloader ''/bills''
            (newDate (getFullYear april2024) (getMonth april2024) d)"
    and never: "fst (tryDownloadingBill firstWriteFails exampleDownloader april2024 ''/bills''
        None []) \<noteq> Inl (SystemError ''ENOSPC'')"
    by blast
  from never run writes [of 0] show ?thesis
    by (auto simp: tryDownloadingBill_via_loop loop_eval answers writes paths)
qed

text \<open>
  C2 as stated fails. When the only document found cannot be written, the caller receives
  the exhaustion error, not the system error; and when a later day can be written, the
  month is reported as a success although a write failed.
\<close>

theorem write_failure_counterexample:
  "nthOutcome writeFailsOnFirstProbe exampleDownloader 0 (newDate 2024 3 14)
     = DocumentFound ''%PDF''
   \<and> writeFile writeFailsOnFirstProbe 0
        (savePath writeFailsOnFirstProbe exampleDownloader ''/bills'' (newDate 2024 3 14)) ''%PDF''
       = Some ''ENOSPC''
   \<and> fst (tryDownloadingBill writeFailsOnFirstProbe exampleDownloader april2024 ''/bills'' None [])
       = Inl (Error ''Unable to find and/or download a bill for the month of 04/2024'')
   \<and> fst (tryDownloadingBill writeFailsOnFirstProbe exampleDownloader april2024 ''/bills'' None [])
       \<noteq> Inl (SystemError ''ENOSPC'')
   \<and> writeFile firstWriteFails 0
        (savePath firstWriteFails exampleDownloader ''/bills'' (newDate 2024 3 15)) ''%PDF''
       = Some ''ENOSPC''
   \<and> writesMade
        (snd (tryDownloadingBill firstWriteFails exampleDownloader april2024 ''/bills'' None []))
       = 2
   \<and> fst (tryDownloadingBill firstWriteFails exampleDownloader april2024 ''/bills'' None [])
       = Inr ()"
  by (simp add: tryDownloadingBill_via_loop loop_eval loop_end world_eval
      writeFailsOnFirstProbe_def firstWriteFails_def april2024_exhausted)

subsection \<open>C3: The bulk download\<close>




subsection \<open>C4: The first document found\<close>

text \<open>
  C4 (as amended). When the days of the window before day \<open>n\<close> are classified as not
  found, the probe of day \<open>n\<close> yields a document and the write of that document
  succeeds, \<^verbatim>\<open>tryDownloadingBill\<close> makes exactly the requests of the days from the start
  of the window to \<open>n\<close> (that is \<open>n - start + 1\<close> of them), then exactly one write, of the
  document under the name made from the resolved date of day \<open>n\<close>, then nothing but the
  line of success, and returns normally.
\<close>

theorem first_document_is_saved:
  assumes "n \<in> {startDay po..stopDay po}"
    and "\<forall>d\<in>{startDay po..<n}.
           nthOutcome world this (requestsMade tr + nat (d - startDay po))
             (newDate (getFullYear issuedDate) (getMonth issuedDate) d) = NotFound"
    and "nthOutcome world this (requestsMade tr + nat (n - startDay po))
           (newDate (getFullYear issuedDate) (getMonth issuedDate) n) = DocumentFound b"
    and "writeFile world (writesMade tr)
           (savePath world this dir (newDate (getFullYear issuedDate) (getMonth issuedDate) n)) b
           = None"
  shows "fst (tryDownloadingBill world this issuedDate dir po tr) = Inr ()
    \<and> io (snd (tryDownloadingBill world this issuedDate dir po tr))
        = io tr @ map (probe this (getFullYear issuedDate) (getMonth issuedDate)) [startDay po..n]
            @ [Write (resolve world dir (accountNumber this @ ''-''
                 @ format (newDate (getFullYear issuedDate) (getMonth issuedDate) n)
                     [yyyy, Lit ''-'', MM, Lit ''-'', dd] @ ''.pdf'')) b]
    \<and> requestsMade (snd (tryDownloadingBill world this issuedDate dir po tr))
        = requestsMade tr + nat (n - startDay po + 1)
    \<and> writesMade (snd (tryDownloadingBill world this issuedDate dir po tr)) = writesMade tr + 1
    \<and> last (snd (tryDownloadingBill world this issuedDate dir po tr)) = successLine"
proof -
  let ?y = "getFullYear issuedDate" and ?m = "getMonth issuedDate"
  let ?T = "(tr @ [monthLine issuedDate])
              @ concat (map (missEvents this ?y ?m) [startDay po..n - 1])"
  let ?p = "savePath world this dir (newDate ?y ?m n)"
  let ?E = "[trying ?y ?m n, probe this ?y ?m n, foundLine, Write ?p b, successLine]"
  from assms(1) have lo: "startDay po \<le> n" and hi: "n \<le> stopDay po" by simp_all
  have "nthOutcome world this (requestsMade ?T) (newDate ?y ?m n) = DocumentFound b"
    unfolding requestsMade_reached [OF lo] by (rule assms(3))
  moreover have "writeFile world (writesMade ?T) ?p b = None"
    unfolding writesMade_reached by (rule assms(4))
  ultimately have "tryDownloadingBill_body world this dir ?y ?m n ?T = (True, ?T @ ?E)"
    unfolding foundLine_def successLine_def by (rule body_DocumentFound_saved)
  then have "tryDownloadingBill_loop world this dir ?y ?m (stopDay po) n ?T = (True, ?T @ ?E)"
    by (rule loop_step_True [OF hi])
  then have run: "tryDownloadingBill world this issuedDate dir po tr = (Inr (), ?T @ ?E)"
    unfolding tryDownloadingBill_via_loop scan_reaches [OF assms(1,2)] by simp
  have p: "?p = resolve world dir (accountNumber this @ ''-''
                 @ format (newDate ?y ?m n) [yyyy, Lit ''-'', MM, Lit ''-'', dd] @ ''.pdf'')"
    by (simp add: savePath_def)
  have "io (?T @ ?E) = io tr @ map (probe this ?y ?m) ([startDay po..n - 1] @ [n]) @ [Write ?p b]"
    by simp
  moreover have "requestsMade (?T @ ?E) = requestsMade tr + nat (n - startDay po + 1)"
    using lo by (simp add: nat_add_distrib)
  moreover have "writesMade (?T @ ?E) = writesMade tr + 1"
    by simp
  ultimately show ?thesis
    unfolding run upto_snoc [OF lo] p by simp
qed

text \<open>
  The theorem at the default window of April 2024, with a bill on the fifth probe: five
  requests, for the 14th to the 18th, and one file, named after the 18th.
\<close>

theorem first_document_is_saved_witness:
  "fst (tryDownloadingBill foundOnFifthProbe exampleDownloader april2024 ''/bills'' None [])
     = Inr ()
   \<and> requestsMade
        (snd (tryDownloadingBill foundOnFifthProbe exampleDownloader april2024 ''/bills'' None []))
       = 5
   \<and> writesMade
        (snd (tryDownloadingBill foundOnFifthProbe exampleDownloader april2024 ''/bills'' None []))
       = 1
   \<and> io (snd (tryDownloadingBill foundOnFifthProbe exampleDownloader april2024 ''/bills'' None []))
       = map (probe exampleDownloader 2024 3) [14..18]
           @ [Write ''/bills/12349780000-2024-04-18.pdf'' ''%PDF'']"
proof -
  have h1: "18 \<in> {startDay None..stopDay None}" by simp
  have h2: "\<forall>d\<in>{startDay None..<18}.
      nthOutcome foundOnFifthProbe exampleDownloader (requestsMade [] + nat (d - startDay None))
        (newDate (getFullYear april2024) (getMonth april2024) d) = NotFound"
    by (auto simp: world_eval foundOnFifthProbe_def)
  have h3: "nthOutcome foundOnFifthProbe exampleDownloader
      (requestsMade [] + nat (18 - startDay None))
      (newDate (getFullYear april2024) (getMonth april2024) 18) = DocumentFound ''%PDF''"
    by (simp add: world_eval foundOnFifthProbe_def)
  have h4: "writeFile foundOnFifthProbe (writesMade [])
      (savePath foundOnFifthProbe exampleDownloader ''/bills''
         (newDate (getFullYear april2024) (getMonth april2024) 18)) ''%PDF'' = None"
    by (simp add: foundOnFifthProbe_def exampleWorld_def)
  from first_document_is_saved [OF h1 h2 h3 h4] show ?thesis
    by (simp add: april18_name foundOnFifthProbe_def exampleWorld_def exampleDownloader_def)
qed

text \<open>
  C4 as stated fails in two ways. When the first day yields a document and its write
  fails, the scan goes on through all seven days and ends exhausted. When the first day
  is an authentication failure and the second would yield the first document, the scan
  makes one request and saves nothing.
\<close>

theorem first_document_counterexample:
  "nthOutcome writeFailsOnFirstProbe exampleDownloader 0 (newDate 2024 3 14)
     = DocumentFound ''%PDF''
   \<and> fst (tryDownloadingBill writeFailsOnFirstProbe exampleDownloader april2024 ''/bills'' None [])
       = Inl (Error ''Unable to find and/or download a bill for the month of 04/2024'')
   \<and> requestsMade
        (snd (tryDownloadingBill writeFailsOnFirstProbe exampleDownloader april2024 ''/bills''
                None [])) = 7
   \<and> nthOutcome redirectedBeforeBill exampleDownloader 0 (newDate 2024 3 14)
       = AuthenticationFailed
           ''Unable to make the bill request. An authentication issue has likely occured.''
   \<and> nthOutcome redirectedBeforeBill exampleDownloader 1 (newDate 2024 3 15)
       = DocumentFound ''%PDF''
   \<and> fst (tryDownloadingBill redirectedBeforeBill exampleDownloader april2024 ''/bills'' None [])
       = Inr ()
   \<and> requestsMade
        (snd (tryDownloadingBill redirectedBeforeBill exampleDownloader april2024 ''/bills''
                None [])) = 1
   \<and> writesMade
        (snd (tryDownloadingBill redirectedBeforeBill exampleDownloader april2024 ''/bills''
                None [])) = 0"
  by (simp add: tryDownloadingBill_via_loop loop_eval loop_end world_eval
      writeFailsOnFirstProbe_def redirectedBeforeBill_def april2024_exhausted)

subsection \<open>C5: The classification of a response\<close>

text \<open>
  C5. For every answer of \<^verbatim>\<open>fetch\<close>, the outcome of the probe is the one the
  specification describes, with its order of priority: an authentication failure exactly
  when the response was redirected and its final URL contains \<^verbatim>\<open>Generic\<close>, otherwise
  a document exactly when the content type is \<^verbatim>\<open>application/pdf\<close> and a body is
  present, otherwise not found; and a \<^verbatim>\<open>fetch\<close> that itself fails is not found.
\<close>

theorem probe_classification:
  "probeOutcome (fst (requestBill world this (ValidDate billDate) tr))
     = (case fetch world (requestsMade tr) (requestUrl this billDate) (cookieHeader this) of
          Resolved r \<Rightarrow> spec_classify r
        | Rejected m \<Rightarrow> NotFound)"
  by (auto simp: requestBill_valid requestBill_try_def requestBill_catch_def spec_classify_def
      split: fetch_result.splits)

text \<open>
  The theorem at six answers: the redirect to the generic page, a PDF behind that
  redirect, a PDF, a PDF without a body, an ordinary page, and a network failure.
\<close>

theorem probe_classification_witness:
  "probeOutcome (fst (requestBill (answering genericRedirect) exampleDownloader
       (ValidDate (newDate 2024 3 14)) []))
     = AuthenticationFailed
         ''Unable to make the bill request. An authentication issue has likely occured.''
   \<and> probeOutcome (fst (requestBill
         (answering (Resolved \<lparr>redirected = True,
            url = ''https://customerportal.southerncompany.com/Error/Generic'',
            contentType = Some ''application/pdf'', body = Some ''%PDF''\<rparr>))
         exampleDownloader (ValidDate (newDate 2024 3 14)) []))
       = AuthenticationFailed
           ''Unable to make the bill request. An authentication issue has likely occured.''
   \<and> probeOutcome (fst (requestBill (answering pdfResponse) exampleDownloader
         (ValidDate (newDate 2024 3 14)) []))
       = DocumentFound ''%PDF''
   \<and> probeOutcome (fst (requestBill
         (answering (Resolved \<lparr>redirected = False,
            url = ''https://customerportal.southerncompany.com/Billing/ViewBill'',
            contentType = Some ''application/pdf'', body = None\<rparr>))
         exampleDownloader (ValidDate (newDate 2024 3 14)) []))
       = NotFound
   \<and> probeOutcome (fst (requestBill (answering htmlResponse) exampleDownloader
         (ValidDate (newDate 2024 3 14)) []))
       = NotFound
   \<and> probeOutcome (fst (requestBill (answering (Rejected ''fetch failed'')) exampleDownloader
         (ValidDate (newDate 2024 3 14)) []))
       = NotFound"
  using probe_classification [of "answering genericRedirect" exampleDownloader
      "newDate 2024 3 14" "[]"]
    probe_classification [of "answering (Resolved \<lparr>redirected = True,
            url = ''https://customerportal.southerncompany.com/Error/Generic'',
            contentType = Some ''application/pdf'', body = Some ''%PDF''\<rparr>)" exampleDownloader
      "newDate 2024 3 14" "[]"]
    probe_classification [of "answering pdfResponse" exampleDownloader "newDate 2024 3 14" "[]"]
    probe_classification [of "answering (Resolved \<lparr>redirected = False,
            url = ''https://customerportal.southerncompany.com/Billing/ViewBill'',
            contentType = Some ''application/pdf'', body = None\<rparr>)" exampleDownloader
      "newDate 2024 3 14" "[]"]
    probe_classification [of "answering htmlResponse" exampleDownloader "newDate 2024 3 14" "[]"]
    probe_classification [of "answering (Rejected ''fetch failed'')" exampleDownloader
      "newDate 2024 3 14" "[]"]
  by (simp add: answering_def exampleWorld_def genericRedirect_def pdfResponse_def
      htmlResponse_def spec_classify_def)

subsection \<open>C6: The clamped window\<close>



subsection \<open>C7: The empty window\<close>

text \<open>
  C7. When the clamped last day is before the clamped first day, \<^verbatim>\<open>tryDownloadingBill\<close>
  makes no request and no write: it logs its opening line and the line of failure and
  throws the error that names the month searched.
\<close>

theorem empty_window_is_exhausted:
  assumes "min 31 (max 0 (stopTryingOn options)) < min 31 (max 0 (startTryingOn options))"
  shows "tryDownloadingBill world this issuedDate dir (Some options) tr
    = (Inl (Error (''Unable to find and/or download a bill for the month of ''
              @ format issuedDate [MM, Lit ''/'', yyyy])),
       tr @ [monthLine issuedDate, failedLine])"
proof -
  from assms have "stopDay (Some options) < startDay (Some options)"
    by (simp add: startDay_def stopDay_def Object_assign_def)
  then show ?thesis
    unfolding tryDownloadingBill_via_loop by (simp add: loop_end exhausted_def)
qed

text \<open>
  The theorem for April 2024 and the window from 20 to 14.
\<close>

theorem empty_window_is_exhausted_witness:
  "min 31 (max 0 (14::int)) < min 31 (max 0 20)
   \<and> tryDownloadingBill billOnFirstProbe exampleDownloader april2024 ''/bills''
       (Some \<lparr>startTryingOn = 20, stopTryingOn = 14\<rparr>) []
     = (Inl (Error ''Unable to find and/or download a bill for the month of 04/2024''),
        [Log Blue ''Trying to download bill issued in the month of 04/2024'',
         Log Red (''Operation failed.'' @ [CHR 0x0A])])"
  using empty_window_is_exhausted [of "\<lparr>startTryingOn = 20, stopTryingOn = 14\<rparr>"
      billOnFirstProbe exampleDownloader april2024 "''/bills''" "[]"]
  by (simp add: monthLine_def failedLine_def april2024_def format_eval)

subsection \<open>C8: The date of a request\<close>




subsection \<open>C9: The name of the saved file\<close>

text \<open>
  C9. Whenever \<^verbatim>\<open>tryDownloadingBill\<close> ends with its line of success, it returns
  normally and its last actions are the request of some day \<open>d\<close> of the window, which
  yielded a document, and the write of that document to the path resolved from the save
  directory and the name \<^verbatim>\<open>{accountNumber}-{yyyy-MM-dd}.pdf\<close>, where the date is the
  resolved date of day \<open>d\<close>, not the date of the month asked for: the name is a function
  of the account number and of that date alone.
\<close>

theorem saved_file_is_named_by_resolved_date:
  assumes "last (snd (tryDownloadingBill world this issuedDate dir pollingOptions tr))
             = successLine"
  shows "fst (tryDownloadingBill world this issuedDate dir pollingOptions tr) = Inr ()
    \<and> (\<exists>d\<in>{startDay pollingOptions..stopDay pollingOptions}. \<exists>pre b.
          snd (tryDownloadingBill world this issuedDate dir pollingOptions tr)
            = pre @ [probe this (getFullYear issuedDate) (getMonth issuedDate) d, foundLine,
                Write (resolve world dir (accountNumber this @ ''-''
                  @ format (newDate (getFullYear issuedDate) (getMonth issuedDate) d)
                      [yyyy, Lit ''-'', MM, Lit ''-'', dd] @ ''.pdf'')) b,
                successLine]
          \<and> nthOutcome world this (requestsMade pre)
                (newDate (getFullYear issuedDate) (getMonth issuedDate) d) = DocumentFound b)"
proof -
  let ?y = "getFullYear issuedDate" and ?m = "getMonth issuedDate"
  obtain r tr' where loop: "tryDownloadingBill_loop world this dir ?y ?m
      (stopDay pollingOptions) (startDay pollingOptions) (tr @ [monthLine issuedDate]) = (r, tr')"
    by (cases "tryDownloadingBill_loop world this dir ?y ?m
      (stopDay pollingOptions) (startDay pollingOptions) (tr @ [monthLine issuedDate])")
  show ?thesis
  proof (cases r)
    case False
    with assms show ?thesis
      unfolding tryDownloadingBill_via_loop loop
      by (simp add: failedLine_def successLine_def)
  next
    case True
    with loop have run: "tryDownloadingBill world this issuedDate dir pollingOptions tr
        = (Inr (), tr')"
      unfolding tryDownloadingBill_via_loop by simp
    from loop True have "tryDownloadingBill_loop world this dir ?y ?m
        (stopDay pollingOptions) (startDay pollingOptions) (tr @ [monthLine issuedDate])
          = (True, tr')"
      by simp
    from loop_True [OF this]
    obtain d pre where d: "d \<in> {startDay pollingOptions..stopDay pollingOptions}"
      and sh: "returnedAt world this dir ?y ?m tr' d pre"
      by blast
    from assms have last: "last tr' = successLine" unfolding run by simp
    from sh last obtain b
      where tr': "tr' = pre @ [trying ?y ?m d, probe this ?y ?m d, foundLine,
                     Write (savePath world this dir (newDate ?y ?m d)) b, successLine]"
        and found: "nthOutcome world this (requestsMade pre) (newDate ?y ?m d) = DocumentFound b"
      unfolding returnedAt_def by (auto simp: successLine_def)
    have "tr' = (pre @ [trying ?y ?m d]) @ [probe this ?y ?m d, foundLine,
        Write (resolve world dir (accountNumber this @ ''-''
          @ format (newDate ?y ?m d) [yyyy, Lit ''-'', MM, Lit ''-'', dd] @ ''.pdf'')) b,
        successLine]"
      unfolding tr' by (simp add: savePath_def)
    moreover have "nthOutcome world this (requestsMade (pre @ [trying ?y ?m d]))
        (newDate ?y ?m d) = DocumentFound b"
      using found by simp
    ultimately show ?thesis
      unfolding run using d by (intro conjI bexI [of _ d] exI [of _ "pre @ [trying ?y ?m d]"]
          exI [of _ b]) simp_all
  qed
qed

text \<open>
  The theorem at the default window of April 2024 with a bill on the fifth probe: the one
  file written is named after April 18.
\<close>

theorem saved_file_is_named_by_resolved_date_witness:
  "last (snd (tryDownloadingBill foundOnFifthProbe exampleDownloader april2024 ''/bills'' None []))
     = successLine
   \<and> fst (tryDownloadingBill foundOnFifthProbe exampleDownloader april2024 ''/bills'' None [])
       = Inr ()
   \<and> (\<exists>d\<in>{startDay None..stopDay None}. \<exists>pre b.
         snd (tryDownloadingBill foundOnFifthProbe exampleDownloader april2024 ''/bills'' None [])
           = pre @ [probe exampleDownloader (getFullYear april2024) (getMonth april2024) d,
               foundLine,
               Write (resolve foundOnFifthProbe ''/bills'' (accountNumber exampleDownloader @ ''-''
                 @ format (newDate (getFullYear april2024) (getMonth april2024) d)
                     [yyyy, Lit ''-'', MM, Lit ''-'', dd] @ ''.pdf'')) b,
               successLine]
         \<and> nthOutcome foundOnFifthProbe exampleDownloader (requestsMade pre)
               (newDate (getFullYear april2024) (getMonth april2024) d) = DocumentFound b)
   \<and> filter isWrite
        (snd (tryDownloadingBill foundOnFifthProbe exampleDownloader april2024 ''/bills'' None []))
       = [Write ''/bills/12349780000-2024-04-18.pdf'' ''%PDF'']"
proof -
  have answers: "nthOutcome foundOnFifthProbe exampleDownloader n d
        = (if n = 4 then DocumentFound ''%PDF'' else NotFound)" for n d
    by (simp add: world_eval foundOnFifthProbe_def)
  have writes: "writeFile foundOnFifthProbe n p b = None" for n p b
    by (simp add: foundOnFifthProbe_def exampleWorld_def)
  have path: "savePath foundOnFifthProbe exampleDownloader ''/bills'' (newDate 2024 3 18)
        = ''/bills/12349780000-2024-04-18.pdf''"
    by (simp add: savePath_def april18_name foundOnFifthProbe_def exampleWorld_def
        exampleDownloader_def)
  have run: "tryDownloadingBill foundOnFifthProbe exampleDownloader april2024 ''/bills'' None []
      = (Inr (), [monthLine april2024,
           trying 2024 3 14, probe exampleDownloader 2024 3 14,
           trying 2024 3 15, probe exampleDownloader 2024 3 15,
           trying 2024 3 16, probe exampleDownloader 2024 3 16,
           trying 2024 3 17, probe exampleDownloader 2024 3 17,
           trying 2024 3 18, probe exampleDownloader 2024 3 18, foundLine,
           Write ''/bills/12349780000-2024-04-18.pdf'' ''%PDF'', successLine])"
    by (simp add: tryDownloadingBill_via_loop loop_eval answers writes path)
  have h: "last (snd (tryDownloadingBill foundOnFifthProbe exampleDownloader april2024 ''/bills''
      None [])) = successLine"
    unfolding run by simp
  have w: "filter isWrite
        (snd (tryDownloadingBill foundOnFifthProbe exampleDownloader april2024 ''/bills'' None []))
       = [Write ''/bills/12349780000-2024-04-18.pdf'' ''%PDF'']"
    unfolding run
    by (simp add: monthLine_def trying_def probe_def foundLine_def successLine_def)
  from saved_file_is_named_by_resolved_date [OF h] h w show ?thesis
    by blast
qed

subsection \<open>C10: The rejections of requestBill\<close>

text \<open>
  C10 (as amended). For a valid bill date, \<^verbatim>\<open>requestBill\<close> resolves with the body, or
  rejects with one of three values: the \<^verbatim>\<open>AuthenticationError\<close> for the redirect to the
  generic page and only for it, \<^verbatim>\<open>undefined\<close> for any other response that is not a PDF
  with a body, and the \<^verbatim>\<open>Error\<close> with the message \<^verbatim>\<open>An unknown error occurred.\<close>
  when \<^verbatim>\<open>fetch\<close> itself fails. For the Invalid Date it makes no request and rejects with
  a fourth value, the \<^verbatim>\<open>RangeError\<close> that \<^verbatim>\<open>format\<close> throws before the \<^verbatim>\<open>try\<close>
  block. For no date does the \<^verbatim>\<open>TypeError\<close> of a failed \<^verbatim>\<open>fetch\<close> reach the caller.
\<close>

theorem requestBill_rejections:
  "fst (requestBill world this (ValidDate billDate) tr)
     = (case fetch world (requestsMade tr) (requestUrl this billDate) (cookieHeader this) of
          Rejected m \<Rightarrow> Inl (Error ''An unknown error occurred.'')
        | Resolved r \<Rightarrow>
            if redirected r \<and> String_includes (url r) ''Generic''
            then Inl (AuthenticationError
                   ''Unable to make the bill request. An authentication issue has likely occured.'')
            else if contentType r = Some ''application/pdf'' \<and> body r \<noteq> None
            then Inr (the (body r))
            else Inl Undefined)
   \<and> fst (requestBill world this (ValidDate billDate) tr)
       \<in> {Inl (AuthenticationError
               ''Unable to make the bill request. An authentication issue has likely occured.''),
           Inl Undefined, Inl (Error ''An unknown error occurred.'')} \<union> range Inr
   \<and> requestBill world this InvalidDate tr = (Inl (RangeError ''Invalid time value''), tr)
   \<and> fst (requestBill world this anyDate tr) \<noteq> Inl (TypeError m)"
  by (cases anyDate)
    (auto simp: requestBill_valid requestBill_invalid requestBill_try_def requestBill_catch_def
      split: fetch_result.splits)

text \<open>
  The theorem at the redirect, an ordinary page, a network failure and a PDF, and at the
  Invalid Date.
\<close>

theorem requestBill_rejections_witness:
  "fst (requestBill (answering genericRedirect) exampleDownloader
         (ValidDate (newDate 2024 3 14)) [])
     = Inl (AuthenticationError
         ''Unable to make the bill request. An authentication issue has likely occured.'')
   \<and> fst (requestBill (answering htmlResponse) exampleDownloader
         (ValidDate (newDate 2024 3 14)) [])
       = Inl Undefined
   \<and> fst (requestBill (answering (Rejected ''fetch failed'')) exampleDownloader
         (ValidDate (newDate 2024 3 14)) [])
       = Inl (Error ''An unknown error occurred.'')
   \<and> fst (requestBill (answering pdfResponse) exampleDownloader
         (ValidDate (newDate 2024 3 14)) [])
       = Inr ''%PDF''
   \<and> requestBill (answering pdfResponse) exampleDownloader InvalidDate []
       = (Inl (RangeError ''Invalid time value''), [])"
  using requestBill_rejections [of "answering genericRedirect" exampleDownloader
      "newDate 2024 3 14" "[]"]
    requestBill_rejections [of "answering htmlResponse" exampleDownloader
      "newDate 2024 3 14" "[]"]
    requestBill_rejections [of "answering (Rejected ''fetch failed'')" exampleDownloader
      "newDate 2024 3 14" "[]"]
    requestBill_rejections [of "answering pdfResponse" exampleDownloader
      "newDate 2024 3 14" "[]"]
  by (simp add: answering_def exampleWorld_def genericRedirect_def pdfResponse_def
      htmlResponse_def)

text \<open>
  C10 as stated fails: on the Invalid Date \<^verbatim>\<open>requestBill\<close> rejects with the
  \<^verbatim>\<open>RangeError\<close> of \<^verbatim>\<open>format\<close>, which is none of the three values and is not replaced
  by the generic \<^verbatim>\<open>Error\<close>.
\<close>

theorem invalid_date_counterexample:
  "fst (requestBill (answering pdfResponse) exampleDownloader InvalidDate [])
     = Inl (RangeError ''Invalid time value'')
   \<and> fst (requestBill (answering pdfResponse) exampleDownloader InvalidDate [])
       \<notin> {Inl (AuthenticationError
               ''Unable to make the bill request. An authentication issue has likely occured.''),
           Inl Undefined, Inl (Error ''An unknown error occurred.'')} \<union> range Inr"
  by (auto simp: requestBill_invalid)

end
